theory Spec2Isabelle
  imports Complex_Main "HOL-Library.AList"
begin

section \<open>AgriSense cloud sync: the relay of raspberry\_pi/cloud\_sync.py\<close>

text \<open>
  The development embeds the delivery logic of \<^verbatim>\<open>cloud_sync.py\<close>: the SQLite
  offline queue (\<^verbatim>\<open>OfflineQueue\<close>) and the handlers and background loops of
  \<^verbatim>\<open>CloudSyncService\<close>. Each method becomes a function that takes the state of
  the service and returns the new one. What the environment decides (the outcome of a
  publish call, a clock reading, the text codec of the \<^verbatim>\<open>json\<close> module) is an
  argument of the function that consumes it.
\<close>

subsection \<open>JSON values and the codec\<close>

text \<open>
  The values \<^verbatim>\<open>json.loads\<close> produces. A Python \<^verbatim>\<open>dict\<close> keeps insertion
  order, so an object is an association list; \<^verbatim>\<open>d[k] = v\<close> is \<^const>\<open>AList.update\<close>
  (replace in place, or append a new key at the end) and \<^verbatim>\<open>d.get(k, dflt)\<close> is
  \<^const>\<open>map_of\<close> with a default. Floats are carried, never computed with, so their type
  is left opaque.
\<close>

typedecl pyfloat

datatype json =
    JNull
  | JBool bool
  | JInt int
  | JFloat pyfloat
  | JStr string
  | JArr "json list"
  | JObj "(string \<times> json) list"

text \<open>
  \<^verbatim>\<open>json.loads\<close> and \<^verbatim>\<open>json.dumps\<close> belong to the Python library, not to this
  repository, so the functions below take them as arguments \<open>loads\<close> (\<open>None\<close> when it
  raises; applied to a message it stands for \<^verbatim>\<open>json.loads(msg.payload.decode())\<close>)
  and \<open>dumps\<close>.
\<close>

type_synonym loads_fn = "string \<Rightarrow> json option"
type_synonym dumps_fn = "json \<Rightarrow> string"

text \<open>\<^verbatim>\<open>d.get(k, dflt)\<close> on a dict.\<close>

definition dict_get :: "(string \<times> json) list \<Rightarrow> string \<Rightarrow> json \<Rightarrow> json" where
  "dict_get d k dflt = (case map_of d k of None \<Rightarrow> dflt | Some v \<Rightarrow> v)"

subsection \<open>Configuration (class Config)\<close>

record config =
  LOCAL_TOPIC :: string
  CLOUD_TOPIC :: string
  CLOUD_ALARMS_TOPIC :: string
  REALTIME_MODE :: bool
  BATCH_SIZE :: int
  BATCH_TIMEOUT :: int
  RETRY_INTERVAL :: int
  EDGE_ID :: string
  EDGE_NAME :: string
  EDGE_LOCATION :: string

text \<open>The defaults of the class body.\<close>

definition Config :: config where
  "Config = \<lparr> LOCAL_TOPIC = ''agrisense/sensors/data'',
     CLOUD_TOPIC = ''agrisense/sensors/data'',
     CLOUD_ALARMS_TOPIC = ''agrisense/alarms'',
     REALTIME_MODE = True, BATCH_SIZE = 1, BATCH_TIMEOUT = 2, RETRY_INTERVAL = 5,
     EDGE_ID = ''edge-rpi-001'', EDGE_NAME = ''AgriSense Gateway'',
     EDGE_LOCATION = ''Greenhouse-A'' \<rparr>"

subsection \<open>The offline queue (class OfflineQueue)\<close>

text \<open>
  One row of table \<^verbatim>\<open>reading_queue\<close>. \<open>created_at\<close> is the \<^verbatim>\<open>CURRENT_TIMESTAMP\<close>
  default, the clock of the store at insertion in whole seconds; \<open>status\<close> defaults to
  \<^verbatim>\<open>'pending'\<close>.
\<close>

record row =
  row_id :: nat
  row_data :: string
  created_at :: nat
  status :: string

text \<open>
  The table: its rows in rowid order, and the largest id ever handed out
  (\<^verbatim>\<open>AUTOINCREMENT\<close> never reuses an id). The store itself is taken to work: a failing
  disk is outside the model.
\<close>

record offline_queue =
  rows :: "row list"
  seq :: nat

definition init_db :: offline_queue where
  "init_db = \<lparr> rows = [], seq = 0 \<rparr>"

text \<open>\<^verbatim>\<open>enqueue\<close>: insert \<^verbatim>\<open>json.dumps(data)\<close>, return \<^verbatim>\<open>cursor.lastrowid\<close>.\<close>

definition enqueue :: "dumps_fn \<Rightarrow> nat \<Rightarrow> json \<Rightarrow> offline_queue \<Rightarrow> nat \<times> offline_queue" where
  "enqueue dumps db_now data q =
     (let queue_id = seq q + 1 in
      (queue_id,
       q\<lparr> rows := rows q @ [\<lparr> row_id = queue_id, row_data = dumps data,
                                created_at = db_now, status = ''pending'' \<rparr>],
          seq := queue_id \<rparr>))"

text \<open>
  \<^verbatim>\<open>LIMIT ?\<close>: SQLite reads a negative limit as no limit.
\<close>

definition sql_limit :: "int \<Rightarrow> 'a list \<Rightarrow> 'a list" where
  "sql_limit n xs = (if n < 0 then xs else take (nat n) xs)"

text \<open>
  The \<^verbatim>\<open>SELECT\<close> of \<^verbatim>\<open>get_pending\<close>: pending rows ordered by \<open>created_at\<close>
  (rows of equal time stay in rowid order), cut at the limit.
\<close>

definition select_pending :: "int \<Rightarrow> offline_queue \<Rightarrow> row list" where
  "select_pending limit q =
     sql_limit limit (sort_key created_at (filter (\<lambda>r. status r = ''pending'') (rows q)))"

text \<open>
  The loop over \<^verbatim>\<open>cursor.fetchall()\<close>: each row becomes
  \<^verbatim>\<open>{'id': row[0], 'data': json.loads(row[1])}\<close>, here a pair. A row that does not
  parse raises, and the call returns nothing (\<open>None\<close>).
\<close>

fun load_rows :: "loads_fn \<Rightarrow> row list \<Rightarrow> (nat \<times> json) list option" where
  "load_rows loads [] = Some []"
| "load_rows loads (r # rs) =
     (case loads (row_data r) of
        None \<Rightarrow> None
      | Some d \<Rightarrow> (case load_rows loads rs of
                     None \<Rightarrow> None
                   | Some res \<Rightarrow> Some ((row_id r, d) # res)))"

definition get_pending :: "loads_fn \<Rightarrow> int \<Rightarrow> offline_queue \<Rightarrow> (nat \<times> json) list option" where
  "get_pending loads limit q = load_rows loads (select_pending limit q)"

text \<open>\<^verbatim>\<open>mark_sent\<close>: nothing for an empty list, else delete the rows whose id is listed.\<close>

definition mark_sent :: "nat list \<Rightarrow> offline_queue \<Rightarrow> offline_queue" where
  "mark_sent ids q =
     (if ids = [] then q else q\<lparr> rows := filter (\<lambda>r. row_id r \<notin> set ids) (rows q) \<rparr>)"

text \<open>
  What every table built by \<^verbatim>\<open>enqueue\<close> and \<^verbatim>\<open>mark_sent\<close> satisfies: ids
  grow along the rows and none exceeds the counter. \<open>clock_monotone\<close> says more: the
  clock of the store never stepped back between two insertions.
\<close>

definition queue_ok :: "offline_queue \<Rightarrow> bool" where
  "queue_ok q \<longleftrightarrow>
     sorted_wrt (<) (map row_id (rows q)) \<and> list_all (\<lambda>r. row_id r \<le> seq q) (rows q)"

definition clock_monotone :: "offline_queue \<Rightarrow> bool" where
  "clock_monotone q \<longleftrightarrow> sorted (map created_at (rows q))"

definition get_count :: "offline_queue \<Rightarrow> nat" where
  "get_count q = length (filter (\<lambda>r. status r = ''pending'') (rows q))"

subsection \<open>The service state (class CloudSyncService)\<close>

record stats =
  readings_received :: nat
  readings_sent :: nat
  readings_queued :: nat
  connection_errors :: nat
  last_sync :: "string option"

text \<open>
  The fields of the service, and two logs that record every call of
  \<^verbatim>\<open>cloud_client.publish\<close> and \<^verbatim>\<open>local_client.publish\<close> (topic and text) in
  order, so that what was sent can be stated.
\<close>

record service =
  cloud_connected :: bool
  local_connected :: bool
  running :: bool
  offline_queue :: offline_queue
  batch_buffer :: "json list"
  last_batch_time :: real
  stats :: stats
  cloud_out :: "(string \<times> string) list"
  local_out :: "(string \<times> string) list"

text \<open>
  What a call of \<^verbatim>\<open>publish\<close> can do: return a result with code \<open>rc\<close>, or raise.
  \<^verbatim>\<open>mqtt.MQTT_ERR_SUCCESS\<close> is 0.
\<close>

datatype publish_outcome = Rc int | Raises

definition MQTT_ERR_SUCCESS :: int where
  "MQTT_ERR_SUCCESS = 0"

text \<open>
  The environment of one call: \<open>cloud_publish n\<close> is the outcome of the publish call
  made when \<open>n\<close> calls are already in the log; \<open>db_clock\<close> is the clock of the store;
  \<open>iso_clock\<close> is \<^verbatim>\<open>datetime.now().isoformat()\<close> as read by \<^verbatim>\<open>_send_to_cloud\<close>.
\<close>

record env =
  cloud_publish :: "nat \<Rightarrow> publish_outcome"
  db_clock :: nat
  iso_clock :: string

definition queued_record :: "string \<Rightarrow> json \<Rightarrow> json" where
  "queued_record topic payload = JObj [(''topic'', JStr topic), (''payload'', payload)]"

text \<open>The three lines every failure branch of \<^verbatim>\<open>_send_to_cloud\<close> runs.\<close>

definition queue_for_later :: "dumps_fn \<Rightarrow> env \<Rightarrow> string \<Rightarrow> json \<Rightarrow> service \<Rightarrow> service" where
  "queue_for_later dumps e topic payload s =
     s\<lparr> offline_queue := snd (enqueue dumps (db_clock e) (queued_record topic payload) (offline_queue s)),
        stats := (stats s)\<lparr> readings_queued := readings_queued (stats s) + 1 \<rparr> \<rparr>"

definition send_to_cloud :: "dumps_fn \<Rightarrow> env \<Rightarrow> string \<Rightarrow> json \<Rightarrow> service \<Rightarrow> bool \<times> service" where
  "send_to_cloud dumps e topic payload s =
     (if \<not> cloud_connected s then (False, queue_for_later dumps e topic payload s)
      else
        let result = cloud_publish e (length (cloud_out s));
            s1 = s\<lparr> cloud_out := cloud_out s @ [(topic, dumps payload)] \<rparr>
        in case result of
             Rc rc \<Rightarrow>
               if rc = MQTT_ERR_SUCCESS
               then (True, s1\<lparr> stats := (stats s1)\<lparr> readings_sent := readings_sent (stats s1) + 1,
                                                    last_sync := Some (iso_clock e) \<rparr> \<rparr>)
               else (False, queue_for_later dumps e topic payload s1)
           | Raises \<Rightarrow> (False, queue_for_later dumps e topic payload s1))"

subsection \<open>Messages from the local broker\<close>

record message =
  msg_topic :: string
  msg_payload :: string

text \<open>
  The four assignments \<^verbatim>\<open>payload['edge_id'] = ...\<close> to
  \<^verbatim>\<open>payload['received_at'] = ...\<close>, in the order of the source.
\<close>

definition add_edge_metadata :: "config \<Rightarrow> string \<Rightarrow> (string \<times> json) list \<Rightarrow> (string \<times> json) list" where
  "add_edge_metadata cfg received_iso payload =
     AList.update ''received_at'' (JStr received_iso)
       (AList.update ''edge_location'' (JStr (EDGE_LOCATION cfg))
         (AList.update ''edge_name'' (JStr (EDGE_NAME cfg))
           (AList.update ''edge_id'' (JStr (EDGE_ID cfg)) payload)))"

text \<open>The names of the four fields written above.\<close>

definition metadata_keys :: "string set" where
  "metadata_keys = {''edge_id'', ''edge_name'', ''edge_location'', ''received_at''}"

text \<open>
  \<^verbatim>\<open>_handle_local_message\<close>. \<open>received_iso\<close> is the clock reading stored in
  \<^verbatim>\<open>received_at\<close>. When the text does not parse, \<^verbatim>\<open>json.loads\<close> raises before
  anything is touched. When it parses to something that is no dict, the counter is already
  incremented and the first item assignment raises \<^verbatim>\<open>TypeError\<close>; both handlers only
  log.
\<close>

definition handle_local_message ::
  "loads_fn \<Rightarrow> dumps_fn \<Rightarrow> config \<Rightarrow> string \<Rightarrow> env \<Rightarrow> message \<Rightarrow> service \<Rightarrow> service" where
  "handle_local_message loads dumps cfg received_iso e msg s =
     (case loads (msg_payload msg) of
        None \<Rightarrow> s
      | Some decoded \<Rightarrow>
          let s1 = s\<lparr> stats := (stats s)\<lparr> readings_received := readings_received (stats s) + 1 \<rparr> \<rparr>
          in (case decoded of
                JObj received \<Rightarrow>
                  let payload = JObj (add_edge_metadata cfg received_iso received)
                  in if msg_topic msg = ''agrisense/alarms''
                     then snd (send_to_cloud dumps e (CLOUD_ALARMS_TOPIC cfg) payload s1)
                     else if REALTIME_MODE cfg
                     then snd (send_to_cloud dumps e (CLOUD_TOPIC cfg) payload s1)
                     else s1\<lparr> batch_buffer := batch_buffer s1 @ [payload] \<rparr>
              | _ \<Rightarrow> s1))"

text \<open>
  \<^verbatim>\<open>_handle_cloud_message\<close>: a command from the cloud. An exception of
  \<^verbatim>\<open>json.loads\<close> or of the local publish call is logged and nothing else happens.
\<close>

definition handle_cloud_message :: "loads_fn \<Rightarrow> dumps_fn \<Rightarrow> message \<Rightarrow> service \<Rightarrow> service" where
  "handle_cloud_message loads dumps msg s =
     (case loads (msg_payload msg) of
        None \<Rightarrow> s
      | Some payload \<Rightarrow>
          if local_connected s
          then s\<lparr> local_out := local_out s @ [(''agrisense/commands'', dumps payload)] \<rparr>
          else s)"

text \<open>
  The \<^verbatim>\<open>on_message\<close> callback of the local client over a sequence of arrivals,
  each with the clock reading and the environment of its call.
\<close>

record arrival =
  arr_iso :: string
  arr_env :: env
  arr_msg :: message

fun local_on_messages ::
  "loads_fn \<Rightarrow> dumps_fn \<Rightarrow> config \<Rightarrow> arrival list \<Rightarrow> service \<Rightarrow> service" where
  "local_on_messages loads dumps cfg [] s = s"
| "local_on_messages loads dumps cfg (a # as) s =
     local_on_messages loads dumps cfg as
       (handle_local_message loads dumps cfg (arr_iso a) (arr_env a) (arr_msg a) s)"

text \<open>The payload the handler builds for an arrival that parses to an object.\<close>

definition tagged_payload :: "loads_fn \<Rightarrow> config \<Rightarrow> arrival \<Rightarrow> json" where
  "tagged_payload loads cfg a =
     (case loads (msg_payload (arr_msg a)) of
        Some (JObj received) \<Rightarrow> JObj (add_edge_metadata cfg (arr_iso a) received)
      | _ \<Rightarrow> JNull)"

subsection \<open>The batch sender\<close>

text \<open>
  The test of one round of \<^verbatim>\<open>_batch_sender_loop\<close>, with \<open>now\<close> the reading of
  \<^verbatim>\<open>time.time()\<close>. Clock readings are taken as exact numbers.
\<close>

definition should_send :: "config \<Rightarrow> real \<Rightarrow> service \<Rightarrow> bool" where
  "should_send cfg now s =
     (if int (length (batch_buffer s)) \<ge> BATCH_SIZE cfg then True
      else if length (batch_buffer s) > 0
      then now - last_batch_time s \<ge> real_of_int (BATCH_TIMEOUT cfg)
      else False)"

definition batch_payload :: "config \<Rightarrow> string \<Rightarrow> json list \<Rightarrow> json" where
  "batch_payload cfg batch_iso batch =
     JObj [(''edge_id'', JStr (EDGE_ID cfg)),
           (''edge_name'', JStr (EDGE_NAME cfg)),
           (''batch_size'', JInt (int (length batch))),
           (''batch_time'', JStr batch_iso),
           (''readings'', JArr batch)]"

text \<open>
  \<^verbatim>\<open>_send_batch\<close>: \<open>flush_time\<close> is the reading of \<^verbatim>\<open>time.time()\<close> stored in
  \<^verbatim>\<open>last_batch_time\<close>, \<open>batch_iso\<close> the one stored in \<^verbatim>\<open>batch_time\<close>.
\<close>

definition send_batch :: "dumps_fn \<Rightarrow> config \<Rightarrow> real \<Rightarrow> string \<Rightarrow> env \<Rightarrow> service \<Rightarrow> service" where
  "send_batch dumps cfg flush_time batch_iso e s =
     (if batch_buffer s = [] then s
      else
        let batch = batch_buffer s;
            s1 = s\<lparr> batch_buffer := [], last_batch_time := flush_time \<rparr>
        in snd (send_to_cloud dumps e (CLOUD_TOPIC cfg) (batch_payload cfg batch_iso batch) s1))"

text \<open>One round of the loop body, after the sleep of one second.\<close>

definition batch_sender_round ::
  "dumps_fn \<Rightarrow> config \<Rightarrow> real \<Rightarrow> real \<Rightarrow> string \<Rightarrow> env \<Rightarrow> service \<Rightarrow> service" where
  "batch_sender_round dumps cfg now flush_time batch_iso e s =
     (if should_send cfg now s then send_batch dumps cfg flush_time batch_iso e s else s)"

text \<open>
  When a round flushes: the test of the loop and the guard of \<^verbatim>\<open>_send_batch\<close>
  taken together.
\<close>

definition flush_due :: "config \<Rightarrow> real \<Rightarrow> service \<Rightarrow> bool" where
  "flush_due cfg now s \<longleftrightarrow>
     batch_buffer s \<noteq> [] \<and>
     (int (length (batch_buffer s)) \<ge> BATCH_SIZE cfg
      \<or> now - last_batch_time s \<ge> real_of_int (BATCH_TIMEOUT cfg))"

text \<open>
  The loop itself: \<^verbatim>\<open>while self.running:\<close> sleep one second, then one round.
  The list holds what each round reads from its environment (the two readings of
  \<^verbatim>\<open>time.time()\<close>, the date written into the batch, the outcomes of publish
  calls); the loop is followed for as many rounds as the list is long.
\<close>

record tick =
  tick_now :: real
  tick_flush :: real
  tick_iso :: string
  tick_env :: env

fun batch_sender_loop :: "dumps_fn \<Rightarrow> config \<Rightarrow> tick list \<Rightarrow> service \<Rightarrow> service" where
  "batch_sender_loop dumps cfg [] s = s"
| "batch_sender_loop dumps cfg (t # ts) s =
     (if running s
      then batch_sender_loop dumps cfg ts
             (batch_sender_round dumps cfg (tick_now t) (tick_flush t) (tick_iso t) (tick_env t) s)
      else s)"

subsection \<open>The offline queue processor\<close>

text \<open>
  The \<^verbatim>\<open>for item in pending\<close> loop of \<^verbatim>\<open>_offline_queue_processor\<close>, with
  \<open>sent_ids\<close> as accumulator. The \<^verbatim>\<open>break\<close> sits in the \<^verbatim>\<open>except\<close> branch only:
  a result whose code is not \<^verbatim>\<open>MQTT_ERR_SUCCESS\<close> falls through to the next item.
  An item whose data is no dict raises at \<^verbatim>\<open>.get\<close>, and a topic that is no string
  raises inside \<^verbatim>\<open>publish\<close> before anything is sent.
\<close>

fun drain_items ::
  "dumps_fn \<Rightarrow> config \<Rightarrow> env \<Rightarrow> (nat \<times> json) list \<Rightarrow> nat list \<Rightarrow> service \<Rightarrow> nat list \<times> service" where
  "drain_items dumps cfg e [] sent_ids s = (sent_ids, s)"
| "drain_items dumps cfg e (item # rest) sent_ids s =
     (case snd item of
        JObj d \<Rightarrow>
          (case dict_get d ''topic'' (JStr (CLOUD_TOPIC cfg)) of
             JStr topic \<Rightarrow>
               let payload = dict_get d ''payload'' (JObj d);
                   result = cloud_publish e (length (cloud_out s));
                   s1 = s\<lparr> cloud_out := cloud_out s @ [(topic, dumps payload)] \<rparr>
               in (case result of
                     Rc rc \<Rightarrow>
                       if rc = MQTT_ERR_SUCCESS
                       then drain_items dumps cfg e rest (sent_ids @ [fst item])
                              (s1\<lparr> stats := (stats s1)\<lparr> readings_sent := readings_sent (stats s1) + 1 \<rparr> \<rparr>)
                       else drain_items dumps cfg e rest sent_ids s1
                   | Raises \<Rightarrow> (sent_ids, s1))
           | _ \<Rightarrow> (sent_ids, s))
      | _ \<Rightarrow> (sent_ids, s))"

text \<open>
  The publish call the loop makes for an item whose data is a dict with a string topic:
  topic and text.
\<close>

definition publication :: "dumps_fn \<Rightarrow> config \<Rightarrow> nat \<times> json \<Rightarrow> string \<times> string" where
  "publication dumps cfg item =
     (case snd item of
        JObj d \<Rightarrow>
          (case dict_get d ''topic'' (JStr (CLOUD_TOPIC cfg)) of
             JStr topic \<Rightarrow> (topic, dumps (dict_get d ''payload'' (JObj d)))
           | _ \<Rightarrow> ([], []))
      | _ \<Rightarrow> ([], []))"

definition well_formed_item :: "config \<Rightarrow> nat \<times> json \<Rightarrow> bool" where
  "well_formed_item cfg item =
     (case snd item of
        JObj d \<Rightarrow>
          (case dict_get d ''topic'' (JStr (CLOUD_TOPIC cfg)) of JStr topic \<Rightarrow> True | _ \<Rightarrow> False)
      | _ \<Rightarrow> False)"

text \<open>
  One round of the \<^verbatim>\<open>while\<close> loop after the sleep. \<open>None\<close>: \<^verbatim>\<open>get_pending\<close>
  raised, which nothing catches, and the thread ends.
\<close>

definition offline_queue_round ::
  "loads_fn \<Rightarrow> dumps_fn \<Rightarrow> config \<Rightarrow> env \<Rightarrow> service \<Rightarrow> service option" where
  "offline_queue_round loads dumps cfg e s =
     (if \<not> cloud_connected s then Some s
      else case get_pending loads 50 (offline_queue s) of
             None \<Rightarrow> None
           | Some pending \<Rightarrow>
               if pending = [] then Some s
               else
                 let (sent_ids, s1) = drain_items dumps cfg e pending [] s
                 in if sent_ids \<noteq> []
                    then Some (s1\<lparr> offline_queue := mark_sent sent_ids (offline_queue s1) \<rparr>)
                    else Some s1)"

subsection \<open>Construction and the connection callbacks\<close>

text \<open>\<^verbatim>\<open>__init__\<close>, with \<open>t0\<close> the reading of \<^verbatim>\<open>time.time()\<close>, over a given store.\<close>

definition new_service :: "offline_queue \<Rightarrow> real \<Rightarrow> service" where
  "new_service q t0 =
     \<lparr> cloud_connected = False, local_connected = False, running = False,
       offline_queue = q, batch_buffer = [], last_batch_time = t0,
       stats = \<lparr> readings_received = 0, readings_sent = 0, readings_queued = 0,
                 connection_errors = 0, last_sync = None \<rparr>,
       cloud_out = [], local_out = [] \<rparr>"

text \<open>The first assignment of \<^verbatim>\<open>start\<close>.\<close>

definition start_running :: "service \<Rightarrow> service" where
  "start_running s = s\<lparr> running := True \<rparr>"

text \<open>The \<^verbatim>\<open>on_connect\<close> and \<^verbatim>\<open>on_disconnect\<close> closures of the two clients.\<close>

definition cloud_on_connect :: "int \<Rightarrow> service \<Rightarrow> service" where
  "cloud_on_connect rc s =
     (if rc = 0 then s\<lparr> cloud_connected := True \<rparr>
      else s\<lparr> stats := (stats s)\<lparr> connection_errors := connection_errors (stats s) + 1 \<rparr> \<rparr>)"

definition cloud_on_disconnect :: "service \<Rightarrow> service" where
  "cloud_on_disconnect s = s\<lparr> cloud_connected := False \<rparr>"

definition local_on_connect :: "int \<Rightarrow> service \<Rightarrow> service" where
  "local_on_connect rc s = (if rc = 0 then s\<lparr> local_connected := True \<rparr> else s)"

definition local_on_disconnect :: "service \<Rightarrow> service" where
  "local_on_disconnect s = s\<lparr> local_connected := False \<rparr>"

subsection \<open>A reference codec\<close>

text \<open>
  A printer in the layout \<^verbatim>\<open>json.dumps\<close> writes (\<^verbatim>\<open>", "\<close> between items,
  \<^verbatim>\<open>": "\<close> after a key) and a parser for it, to run the functions above on concrete
  texts. An opaque float has no digits to print: the printer writes \<^verbatim>\<open>NaN\<close> for it
  and the parser reads no floats, so the codec is meant for float-free values. The parser
  counts down a fuel that starts above the length of the text.
\<close>

definition digit_chars :: string where
  "digit_chars = ''0123456789''"

fun show_nat :: "nat \<Rightarrow> string" where
  "show_nat n = (if n < 10 then [digit_chars ! n] else show_nat (n div 10) @ [digit_chars ! (n mod 10)])"

declare show_nat.simps [simp del]

definition show_int :: "int \<Rightarrow> string" where
  "show_int i = (if i < 0 then CHR ''-'' # show_nat (nat (- i)) else show_nat (nat i))"

fun escape_char :: "char \<Rightarrow> string" where
  "escape_char c = (if c = CHR 0x22 \<or> c = CHR 0x5C then [CHR 0x5C, c] else [c])"

definition quote :: "string \<Rightarrow> string" where
  "quote s = CHR 0x22 # concat (map escape_char s) @ [CHR 0x22]"

fun commas :: "string list \<Rightarrow> string" where
  "commas [] = []"
| "commas [x] = x"
| "commas (x # y # ys) = x @ '', '' @ commas (y # ys)"

fun ref_dumps :: "json \<Rightarrow> string" where
  "ref_dumps JNull = ''null''"
| "ref_dumps (JBool b) = (if b then ''true'' else ''false'')"
| "ref_dumps (JInt i) = show_int i"
| "ref_dumps (JFloat f) = ''NaN''"
| "ref_dumps (JStr s) = quote s"
| "ref_dumps (JArr xs) = ''['' @ commas (map ref_dumps xs) @ '']''"
| "ref_dumps (JObj kvs) =
     ''{'' @ commas (map (\<lambda>kv. quote (fst kv) @ '': '' @ ref_dumps (snd kv)) kvs) @ ''}''"

definition is_ws :: "char \<Rightarrow> bool" where
  "is_ws c = (c = CHR '' '' \<or> c = CHR 0x09 \<or> c = CHR 0x0A \<or> c = CHR 0x0D)"

definition is_digit :: "char \<Rightarrow> bool" where
  "is_digit c = (c \<in> set digit_chars)"

definition digit_val :: "char \<Rightarrow> nat" where
  "digit_val c = of_char c - 48"

definition read_nat :: "string \<Rightarrow> nat" where
  "read_nat ds = foldl (\<lambda>a c. 10 * a + digit_val c) 0 ds"

fun read_string :: "string \<Rightarrow> (string \<times> string) option" where
  "read_string [] = None"
| "read_string (c # cs) =
     (if c = CHR 0x22 then Some ([], cs)
      else if c = CHR 0x5C then
        (case cs of
           [] \<Rightarrow> None
         | d # ds \<Rightarrow>
             if d = CHR 0x22 \<or> d = CHR 0x5C
             then (case read_string ds of None \<Rightarrow> None | Some (s, r) \<Rightarrow> Some (d # s, r))
             else None)
      else (case read_string cs of None \<Rightarrow> None | Some (s, r) \<Rightarrow> Some (c # s, r)))"

definition read_number :: "string \<Rightarrow> (json \<times> string) option" where
  "read_number cs =
     (case cs of
        [] \<Rightarrow> None
      | c # r \<Rightarrow>
          if c = CHR ''-''
          then (let ds = takeWhile is_digit r in
                if ds = [] then None else Some (JInt (- int (read_nat ds)), dropWhile is_digit r))
          else (let ds = takeWhile is_digit cs in
                if ds = [] then None else Some (JInt (int (read_nat ds)), dropWhile is_digit cs)))"

definition read_word :: "string \<Rightarrow> json \<Rightarrow> string \<Rightarrow> (json \<times> string) option" where
  "read_word w v cs = (if take (length w) cs = w then Some (v, drop (length w) cs) else None)"

fun read_value :: "nat \<Rightarrow> string \<Rightarrow> (json \<times> string) option"
and read_elems :: "nat \<Rightarrow> string \<Rightarrow> (json list \<times> string) option"
and read_members :: "nat \<Rightarrow> string \<Rightarrow> ((string \<times> json) list \<times> string) option" where
  "read_value 0 cs = None"
| "read_value (Suc n) cs =
     (case dropWhile is_ws cs of
        [] \<Rightarrow> None
      | c # r \<Rightarrow>
          if c = CHR ''n'' then read_word ''null'' JNull (c # r)
          else if c = CHR ''t'' then read_word ''true'' (JBool True) (c # r)
          else if c = CHR ''f'' then read_word ''false'' (JBool False) (c # r)
          else if c = CHR 0x22 then
            (case read_string r of None \<Rightarrow> None | Some (s, r') \<Rightarrow> Some (JStr s, r'))
          else if c = CHR ''['' then
            (case dropWhile is_ws r of
               [] \<Rightarrow> None
             | d # r' \<Rightarrow>
                 if d = CHR '']'' then Some (JArr [], r')
                 else (case read_elems n r of None \<Rightarrow> None | Some (xs, r'') \<Rightarrow> Some (JArr xs, r'')))
          else if c = CHR ''{'' then
            (case dropWhile is_ws r of
               [] \<Rightarrow> None
             | d # r' \<Rightarrow>
                 if d = CHR ''}'' then Some (JObj [], r')
                 else (case read_members n r of None \<Rightarrow> None | Some (kvs, r'') \<Rightarrow> Some (JObj kvs, r'')))
          else read_number (c # r))"
| "read_elems 0 cs = None"
| "read_elems (Suc n) cs =
     (case read_value n cs of
        None \<Rightarrow> None
      | Some (v, r) \<Rightarrow>
          (case dropWhile is_ws r of
             [] \<Rightarrow> None
           | c # r' \<Rightarrow>
               if c = CHR '','' then
                 (case read_elems n r' of None \<Rightarrow> None | Some (vs, r'') \<Rightarrow> Some (v # vs, r''))
               else if c = CHR '']'' then Some ([v], r')
               else None))"
| "read_members 0 cs = None"
| "read_members (Suc n) cs =
     (case dropWhile is_ws cs of
        [] \<Rightarrow> None
      | q # r \<Rightarrow>
          if q \<noteq> CHR 0x22 then None
          else (case read_string r of
                  None \<Rightarrow> None
                | Some (k, r1) \<Rightarrow>
                    (case dropWhile is_ws r1 of
                       [] \<Rightarrow> None
                     | c # r2 \<Rightarrow>
                         if c \<noteq> CHR '':'' then None
                         else (case read_value n r2 of
                                 None \<Rightarrow> None
                               | Some (v, r3) \<Rightarrow>
                                   (case dropWhile is_ws r3 of
                                      [] \<Rightarrow> None
                                    | c' # r4 \<Rightarrow>
                                        if c' = CHR '','' then
                                          (case read_members n r4 of
                                             None \<Rightarrow> None
                                           | Some (kvs, r5) \<Rightarrow> Some ((k, v) # kvs, r5))
                                        else if c' = CHR ''}'' then Some ([(k, v)], r4)
                                        else None)))))"

definition ref_loads :: "string \<Rightarrow> json option" where
  "ref_loads cs =
     (case read_value (Suc (length cs)) cs of
        None \<Rightarrow> None
      | Some (v, r) \<Rightarrow> if dropWhile is_ws r = [] then Some v else None)"

text \<open>
  The values without a float anywhere, and the text the printer writes for one member of
  an object.
\<close>

fun float_free :: "json \<Rightarrow> bool" where
  "float_free (JFloat f) = False"
| "float_free (JArr xs) = list_all float_free xs"
| "float_free (JObj kvs) = list_all (\<lambda>kv. float_free (snd kv)) kvs"
| "float_free _ = True"

definition member_text :: "string \<times> json \<Rightarrow> string" where
  "member_text kv = quote (fst kv) @ '': '' @ ref_dumps (snd kv)"

lemmas ref_codec_defs =
  ref_loads_def quote_def show_int_def show_nat.simps digit_chars_def is_ws_def
  is_digit_def read_word_def read_number_def read_nat_def digit_val_def

subsection \<open>Concrete environments and states\<close>

text \<open>
  An environment whose publish calls follow a script (success once the script is used
  up), and the service after a successful connect to both brokers over an empty store.
\<close>

definition script_env :: "publish_outcome list \<Rightarrow> env" where
  "script_env outcomes =
     \<lparr> cloud_publish = (\<lambda>n. if n < length outcomes then outcomes ! n else Rc 0),
       db_clock = 100, iso_clock = ''2024-05-01T12:00:00'' \<rparr>"

definition offline_service :: service where
  "offline_service = local_on_connect 0 (new_service init_db 0)"

definition online_service :: service where
  "online_service = cloud_on_connect 0 offline_service"

definition reading :: json where
  "reading = JObj [(''node_id'', JStr ''n1''), (''temperature'', JInt 21)]"

text \<open>
  The configuration of \<^verbatim>\<open>--no-realtime --batch-size 3 --batch-timeout 30\<close>, and
  messages from the local broker: a reading, an alarm, a reading that already carries an
  \<^verbatim>\<open>edge_id\<close>, and a text that is no JSON.
\<close>

definition batched_config :: config where
  "batched_config = Config\<lparr> REALTIME_MODE := False, BATCH_SIZE := 3, BATCH_TIMEOUT := 30 \<rparr>"

definition data_msg :: "json \<Rightarrow> message" where
  "data_msg j = \<lparr> msg_topic = ''agrisense/sensors/data'', msg_payload = ref_dumps j \<rparr>"

definition alarm :: json where
  "alarm = JObj [(''violations'', JStr ''temperature'')]"

definition alarm_msg :: message where
  "alarm_msg = \<lparr> msg_topic = ''agrisense/alarms'', msg_payload = ref_dumps alarm \<rparr>"

definition tagged_reading :: json where
  "tagged_reading = JObj [(''edge_id'', JStr ''other''), (''temperature'', JInt 21)]"

definition broken_msg :: message where
  "broken_msg = \<lparr> msg_topic = ''agrisense/sensors/data'', msg_payload = ''{temperature'' \<rparr>"

text \<open>
  A command from the cloud, the service with the cloud link up and the local link down,
  a round of the batch sender at clock reading \<open>t\<close>, and the batched configuration with
  \<^verbatim>\<open>--batch-size 0\<close>.
\<close>

definition command :: json where
  "command = JObj [(''action'', JStr ''pump_on'')]"

definition command_msg :: message where
  "command_msg = \<lparr> msg_topic = ''agrisense/commands/edge-rpi-001'', msg_payload = ref_dumps command \<rparr>"

definition cloud_only_service :: service where
  "cloud_only_service = cloud_on_connect 0 (new_service init_db 0)"

definition tick_at :: "real \<Rightarrow> tick" where
  "tick_at t = \<lparr> tick_now = t, tick_flush = t, tick_iso = ''2024-05-01T12:00:00'',
                 tick_env = script_env [] \<rparr>"

definition zero_size_config :: config where
  "zero_size_config = batched_config\<lparr> BATCH_SIZE := 0 \<rparr>"

text \<open>The arrival of a reading on the data topic, and numbered readings.\<close>

definition arrive :: "json \<Rightarrow> arrival" where
  "arrive j = \<lparr> arr_iso = ''2024-05-01T12:00:00'', arr_env = script_env [], arr_msg = data_msg j \<rparr>"

definition reading_n :: "int \<Rightarrow> json" where
  "reading_n k = JObj [(''node_id'', JStr ''n1''), (''seq'', JInt k)]"

text \<open>
  Three readings sent while the cloud link was down, then the link comes up; and a store
  whose clock stepped back between two insertions.
\<close>

definition backlog_service :: service where
  "backlog_service =
     cloud_on_connect 0
       (snd (send_to_cloud ref_dumps (script_env []) ''agrisense/sensors/data'' (reading_n 3)
         (snd (send_to_cloud ref_dumps (script_env []) ''agrisense/sensors/data'' (reading_n 2)
           (snd (send_to_cloud ref_dumps (script_env []) ''agrisense/sensors/data'' (reading_n 1)
             offline_service))))))"

definition clock_back_queue :: offline_queue where
  "clock_back_queue =
     snd (enqueue ref_dumps 5 (queued_record ''agrisense/sensors/data'' (reading_n 2))
       (snd (enqueue ref_dumps 10 (queued_record ''agrisense/sensors/data'' (reading_n 1)) init_db)))"

lemmas example_defs =
  script_env_def offline_service_def online_service_def new_service_def init_db_def
  cloud_on_connect_def local_on_connect_def Config_def MQTT_ERR_SUCCESS_def

section \<open>Properties\<close>

subsection \<open>Sending to the cloud\<close>

lemma send_to_cloud_success:
  assumes "cloud_connected s"
    and "cloud_publish e (length (cloud_out s)) = Rc MQTT_ERR_SUCCESS"
  shows "send_to_cloud dumps e topic payload s =
           (True, s\<lparr> cloud_out := cloud_out s @ [(topic, dumps payload)],
                     stats := (stats s)\<lparr> readings_sent := readings_sent (stats s) + 1,
                                          last_sync := Some (iso_clock e) \<rparr> \<rparr>)"
  using assms by (simp add: send_to_cloud_def Let_def)

lemma send_to_cloud_offline:
  assumes "\<not> cloud_connected s"
  shows "send_to_cloud dumps e topic payload s = (False, queue_for_later dumps e topic payload s)"
  using assms by (simp add: send_to_cloud_def)

lemma send_to_cloud_failure:
  assumes "cloud_connected s"
    and "cloud_publish e (length (cloud_out s)) \<noteq> Rc MQTT_ERR_SUCCESS"
  shows "send_to_cloud dumps e topic payload s =
           (False, queue_for_later dumps e topic payload
                     (s\<lparr> cloud_out := cloud_out s @ [(topic, dumps payload)] \<rparr>))"
  using assms by (simp add: send_to_cloud_def Let_def split: publish_outcome.splits)

lemma queue_for_later_rows:
  "rows (offline_queue (queue_for_later dumps e topic payload s)) =
     rows (offline_queue s) @
       [\<lparr> row_id = seq (offline_queue s) + 1, row_data = dumps (queued_record topic payload),
          created_at = db_clock e, status = ''pending'' \<rparr>]"
  by (simp add: queue_for_later_def enqueue_def Let_def)

lemma queue_for_later_frame:
  "cloud_out (queue_for_later dumps e topic payload s) = cloud_out s"
  "batch_buffer (queue_for_later dumps e topic payload s) = batch_buffer s"
  "local_out (queue_for_later dumps e topic payload s) = local_out s"
  "last_batch_time (queue_for_later dumps e topic payload s) = last_batch_time s"
  by (simp_all add: queue_for_later_def)

text \<open>
  C3. Whatever the topic and the payload: when the cloud link is connected and the
  publish call returns the success code, the call returns true and the offline queue is
  exactly what it was, so the record is not also queued. The one message published is
  the payload on the given topic.
\<close>

theorem send_to_cloud_connected_success_leaves_queue:
  assumes "cloud_connected s"
    and "cloud_publish e (length (cloud_out s)) = Rc MQTT_ERR_SUCCESS"
  shows "fst (send_to_cloud dumps e topic payload s)
       \<and> offline_queue (snd (send_to_cloud dumps e topic payload s)) = offline_queue s
       \<and> readings_queued (stats (snd (send_to_cloud dumps e topic payload s)))
           = readings_queued (stats s)
       \<and> cloud_out (snd (send_to_cloud dumps e topic payload s))
           = cloud_out s @ [(topic, dumps payload)]"
  using assms by (simp add: send_to_cloud_success)

theorem send_to_cloud_connected_success_leaves_queue_witness:
  "cloud_connected online_service
   \<and> cloud_publish (script_env []) (length (cloud_out online_service)) = Rc MQTT_ERR_SUCCESS
   \<and> fst (send_to_cloud ref_dumps (script_env []) ''agrisense/sensors/data'' reading online_service)
   \<and> offline_queue (snd (send_to_cloud ref_dumps (script_env []) ''agrisense/sensors/data''
                             reading online_service)) = init_db
   \<and> cloud_out (snd (send_to_cloud ref_dumps (script_env []) ''agrisense/sensors/data''
                         reading online_service))
       = [(''agrisense/sensors/data'', ref_dumps reading)]"
proof -
  have c: "cloud_connected online_service"
    by (simp add: example_defs reading_def)
  have p: "cloud_publish (script_env []) (length (cloud_out online_service)) = Rc MQTT_ERR_SUCCESS"
    by (simp add: example_defs reading_def)
  have q: "offline_queue online_service = init_db" "cloud_out online_service = []"
    by (simp_all add: example_defs reading_def)
  from send_to_cloud_connected_success_leaves_queue [OF c p, of ref_dumps "''agrisense/sensors/data''" reading]
  show ?thesis using c p q by simp
qed

text \<open>
  C4. When the cloud link is not connected, the call makes no publish call. On every
  failure (not connected, a result code other than success, an exception of the publish
  call) it returns false, and the queue gains exactly one row, at the end, holding the
  text of \<^verbatim>\<open>{'topic': topic, 'payload': payload}\<close>; nothing else in the queue changes.
\<close>

theorem send_to_cloud_failure_queues_once:
  "(\<not> cloud_connected s \<longrightarrow>
      cloud_out (snd (send_to_cloud dumps e topic payload s)) = cloud_out s)
   \<and> (\<not> cloud_connected s \<or> cloud_publish e (length (cloud_out s)) \<noteq> Rc MQTT_ERR_SUCCESS \<longrightarrow>
        \<not> fst (send_to_cloud dumps e topic payload s)
        \<and> rows (offline_queue (snd (send_to_cloud dumps e topic payload s)))
            = rows (offline_queue s) @
                [\<lparr> row_id = seq (offline_queue s) + 1,
                   row_data = dumps (queued_record topic payload),
                   created_at = db_clock e, status = ''pending'' \<rparr>]
        \<and> get_count (offline_queue (snd (send_to_cloud dumps e topic payload s)))
            = get_count (offline_queue s) + 1
        \<and> readings_queued (stats (snd (send_to_cloud dumps e topic payload s)))
            = readings_queued (stats s) + 1)"
proof (cases "cloud_connected s")
  case False
  then show ?thesis
    by (simp add: send_to_cloud_offline queue_for_later_rows queue_for_later_frame get_count_def)
       (simp add: queue_for_later_def)
next
  case True
  show ?thesis
  proof (cases "cloud_publish e (length (cloud_out s)) = Rc MQTT_ERR_SUCCESS")
    case True
    with \<open>cloud_connected s\<close> show ?thesis by simp
  next
    case False
    with \<open>cloud_connected s\<close> show ?thesis
      by (simp add: send_to_cloud_failure queue_for_later_rows get_count_def)
         (simp add: queue_for_later_def)
  qed
qed

theorem send_to_cloud_failure_queues_once_witness:
  "\<not> cloud_connected offline_service
   \<and> cloud_out (snd (send_to_cloud ref_dumps (script_env []) ''agrisense/alarms'' reading
                         offline_service)) = []
   \<and> \<not> fst (send_to_cloud ref_dumps (script_env []) ''agrisense/alarms'' reading offline_service)
   \<and> rows (offline_queue (snd (send_to_cloud ref_dumps (script_env []) ''agrisense/alarms''
                                   reading offline_service)))
       = [\<lparr> row_id = 1, row_data = ref_dumps (queued_record ''agrisense/alarms'' reading),
            created_at = 100, status = ''pending'' \<rparr>]
   \<and> cloud_publish (script_env [Rc 4]) (length (cloud_out online_service)) \<noteq> Rc MQTT_ERR_SUCCESS
   \<and> \<not> fst (send_to_cloud ref_dumps (script_env [Rc 4]) ''agrisense/alarms'' reading online_service)
   \<and> get_count (offline_queue (snd (send_to_cloud ref_dumps (script_env [Rc 4])
                                        ''agrisense/alarms'' reading online_service))) = 1
   \<and> cloud_publish (script_env [Raises]) (length (cloud_out online_service)) \<noteq> Rc MQTT_ERR_SUCCESS
   \<and> \<not> fst (send_to_cloud ref_dumps (script_env [Raises]) ''agrisense/alarms'' reading online_service)
   \<and> get_count (offline_queue (snd (send_to_cloud ref_dumps (script_env [Raises])
                                        ''agrisense/alarms'' reading online_service))) = 1"
proof -
  have off: "\<not> cloud_connected offline_service" "rows (offline_queue offline_service) = []"
    "seq (offline_queue offline_service) = 0" "cloud_out offline_service = []"
    by (simp_all add: example_defs reading_def)
  have on: "cloud_out online_service = []" "get_count (offline_queue online_service) = 0"
    by (simp_all add: example_defs reading_def get_count_def)
  have rc: "cloud_publish (script_env [Rc 4]) 0 \<noteq> Rc MQTT_ERR_SUCCESS"
    "cloud_publish (script_env [Raises]) 0 \<noteq> Rc MQTT_ERR_SUCCESS"
    "db_clock (script_env []) = 100"
    by (simp_all add: example_defs reading_def)
  show ?thesis
    using send_to_cloud_failure_queues_once
            [of offline_service ref_dumps "script_env []" "''agrisense/alarms''" reading]
          send_to_cloud_failure_queues_once
            [of online_service ref_dumps "script_env [Rc 4]" "''agrisense/alarms''" reading]
          send_to_cloud_failure_queues_once
            [of online_service ref_dumps "script_env [Raises]" "''agrisense/alarms''" reading]
          off on rc
    by simp
qed

subsection \<open>Messages from the local broker\<close>

lemma send_to_cloud_batch_buffer:
  "batch_buffer (snd (send_to_cloud dumps e topic payload s)) = batch_buffer s"
  by (simp add: send_to_cloud_def queue_for_later_def Let_def split: publish_outcome.splits)

lemma handle_local_message_undecodable:
  assumes "loads (msg_payload msg) = None"
  shows "handle_local_message loads dumps cfg received_iso e msg s = s"
  using assms by (simp add: handle_local_message_def)

lemma handle_local_message_object:
  assumes "loads (msg_payload msg) = Some (JObj received)"
  shows "handle_local_message loads dumps cfg received_iso e msg s =
    (let s1 = s\<lparr> stats := (stats s)\<lparr> readings_received := readings_received (stats s) + 1 \<rparr> \<rparr>;
         payload = JObj (add_edge_metadata cfg received_iso received)
     in if msg_topic msg = ''agrisense/alarms''
        then snd (send_to_cloud dumps e (CLOUD_ALARMS_TOPIC cfg) payload s1)
        else if REALTIME_MODE cfg
        then snd (send_to_cloud dumps e (CLOUD_TOPIC cfg) payload s1)
        else s1\<lparr> batch_buffer := batch_buffer s1 @ [payload] \<rparr>)"
  using assms by (simp add: handle_local_message_def Let_def)

lemma handle_local_message_not_object:
  assumes "loads (msg_payload msg) = Some v" and "\<forall>d. v \<noteq> JObj d"
  shows "handle_local_message loads dumps cfg received_iso e msg s =
     s\<lparr> stats := (stats s)\<lparr> readings_received := readings_received (stats s) + 1 \<rparr> \<rparr>"
  using assms by (cases v) (simp_all add: handle_local_message_def Let_def)

lemma alarm_never_buffered:
  assumes "msg_topic msg = ''agrisense/alarms''"
  shows "batch_buffer (handle_local_message loads dumps cfg received_iso e msg s) = batch_buffer s"
proof (cases "loads (msg_payload msg)")
  case None
  then show ?thesis by (simp add: handle_local_message_undecodable)
next
  case (Some v)
  show ?thesis
  proof (cases "\<exists>d. v = JObj d")
    case True
    then obtain d where "v = JObj d" by blast
    with Some assms show ?thesis
      by (simp add: handle_local_message_object Let_def send_to_cloud_batch_buffer)
  next
    case False
    with Some show ?thesis by (simp add: handle_local_message_not_object)
  qed
qed

lemma filter_update_other:
  "filter (\<lambda>kv. fst kv \<noteq> k) (AList.update k v al) = filter (\<lambda>kv. fst kv \<noteq> k) al"
  by (induction al) auto

lemma filter_update_notin:
  "k \<in> K \<Longrightarrow> filter (\<lambda>kv. fst kv \<notin> K) (AList.update k v al) = filter (\<lambda>kv. fst kv \<notin> K) al"
  by (induction al) auto

lemma add_edge_metadata_lookup:
  "map_of (add_edge_metadata cfg ts d) =
     (map_of d)(''edge_id'' \<mapsto> JStr (EDGE_ID cfg), ''edge_name'' \<mapsto> JStr (EDGE_NAME cfg),
                ''edge_location'' \<mapsto> JStr (EDGE_LOCATION cfg), ''received_at'' \<mapsto> JStr ts)"
  by (simp add: add_edge_metadata_def update_conv')

lemma add_edge_metadata_others:
  "filter (\<lambda>kv. fst kv \<notin> metadata_keys) (add_edge_metadata cfg ts d)
     = filter (\<lambda>kv. fst kv \<notin> metadata_keys) d"
proof -
  have k: "''edge_id'' \<in> metadata_keys" "''edge_name'' \<in> metadata_keys"
    "''edge_location'' \<in> metadata_keys" "''received_at'' \<in> metadata_keys"
    by (simp_all add: metadata_keys_def)
  show ?thesis
    unfolding add_edge_metadata_def by (simp only: filter_update_notin [OF k(1)]
      filter_update_notin [OF k(2)] filter_update_notin [OF k(3)] filter_update_notin [OF k(4)])
qed

text \<open>
  C7. A message whose payload does not parse is dropped: the handler returns the state
  it was given, so the offline queue, the batch buffer, the counters and the log of
  publish calls are all unchanged. Only the log line of the \<^verbatim>\<open>except\<close> branch,
  which is not part of the state, tells it happened.
\<close>

theorem handle_local_message_decode_failure_drops:
  assumes "loads (msg_payload msg) = None"
  shows "handle_local_message loads dumps cfg received_iso e msg s = s
       \<and> offline_queue (handle_local_message loads dumps cfg received_iso e msg s) = offline_queue s
       \<and> batch_buffer (handle_local_message loads dumps cfg received_iso e msg s) = batch_buffer s
       \<and> stats (handle_local_message loads dumps cfg received_iso e msg s) = stats s
       \<and> cloud_out (handle_local_message loads dumps cfg received_iso e msg s) = cloud_out s"
  using assms by (simp add: handle_local_message_undecodable)

theorem handle_local_message_decode_failure_drops_witness:
  "ref_loads (msg_payload broken_msg) = None
   \<and> handle_local_message ref_loads ref_dumps batched_config ''2024-05-01T12:00:00''
        (script_env []) broken_msg online_service = online_service"
proof -
  have n: "ref_loads (msg_payload broken_msg) = None"
    by (simp add: broken_msg_def ref_codec_defs)
  from handle_local_message_decode_failure_drops
         [of ref_loads broken_msg ref_dumps batched_config "''2024-05-01T12:00:00''"
             "script_env []" online_service] n
  show ?thesis by simp
qed

text \<open>
  C6. A message on the alarm topic never reaches the batch buffer, whatever the mode and
  whatever its payload. When its payload parses to an object, the handler does exactly
  one call of \<^verbatim>\<open>_send_to_cloud\<close> on the cloud alarms topic with the tagged payload,
  in the same call; with the cloud link up and a successful publish, that is one message
  on the cloud alarms topic.
\<close>

theorem alarm_bypasses_batching:
  assumes "msg_topic msg = ''agrisense/alarms''"
  shows "batch_buffer (handle_local_message loads dumps cfg received_iso e msg s) = batch_buffer s
       \<and> (\<forall>received. loads (msg_payload msg) = Some (JObj received) \<longrightarrow>
            handle_local_message loads dumps cfg received_iso e msg s =
              snd (send_to_cloud dumps e (CLOUD_ALARMS_TOPIC cfg)
                     (JObj (add_edge_metadata cfg received_iso received))
                     (s\<lparr> stats := (stats s)\<lparr> readings_received := readings_received (stats s) + 1 \<rparr> \<rparr>))
            \<and> (cloud_connected s \<and> cloud_publish e (length (cloud_out s)) = Rc MQTT_ERR_SUCCESS \<longrightarrow>
                 cloud_out (handle_local_message loads dumps cfg received_iso e msg s) =
                   cloud_out s @ [(CLOUD_ALARMS_TOPIC cfg,
                                   dumps (JObj (add_edge_metadata cfg received_iso received)))]))"
proof (intro conjI allI impI)
  show "batch_buffer (handle_local_message loads dumps cfg received_iso e msg s) = batch_buffer s"
    using assms by (rule alarm_never_buffered)
next
  fix received
  assume "loads (msg_payload msg) = Some (JObj received)"
  then show "handle_local_message loads dumps cfg received_iso e msg s =
      snd (send_to_cloud dumps e (CLOUD_ALARMS_TOPIC cfg)
             (JObj (add_edge_metadata cfg received_iso received))
             (s\<lparr> stats := (stats s)\<lparr> readings_received := readings_received (stats s) + 1 \<rparr> \<rparr>))"
    using assms by (simp add: handle_local_message_object Let_def)
next
  fix received
  assume "loads (msg_payload msg) = Some (JObj received)"
    and "cloud_connected s \<and> cloud_publish e (length (cloud_out s)) = Rc MQTT_ERR_SUCCESS"
  then show "cloud_out (handle_local_message loads dumps cfg received_iso e msg s) =
      cloud_out s @ [(CLOUD_ALARMS_TOPIC cfg,
                      dumps (JObj (add_edge_metadata cfg received_iso received)))]"
    using assms by (simp add: handle_local_message_object Let_def send_to_cloud_success)
qed

theorem alarm_bypasses_batching_witness:
  "msg_topic alarm_msg = ''agrisense/alarms''
   \<and> ref_loads (msg_payload alarm_msg) = Some alarm
   \<and> \<not> REALTIME_MODE batched_config
   \<and> cloud_connected online_service
   \<and> cloud_publish (script_env []) (length (cloud_out online_service)) = Rc MQTT_ERR_SUCCESS
   \<and> batch_buffer (handle_local_message ref_loads ref_dumps batched_config ''2024-05-01T12:00:00''
        (script_env []) alarm_msg online_service) = []
   \<and> cloud_out (handle_local_message ref_loads ref_dumps batched_config ''2024-05-01T12:00:00''
        (script_env []) alarm_msg online_service) =
       [(''agrisense/alarms'',
         ref_dumps (JObj [(''violations'', JStr ''temperature''),
                          (''edge_id'', JStr ''edge-rpi-001''),
                          (''edge_name'', JStr ''AgriSense Gateway''),
                          (''edge_location'', JStr ''Greenhouse-A''),
                          (''received_at'', JStr ''2024-05-01T12:00:00'')]))]"
proof -
  have t: "msg_topic alarm_msg = ''agrisense/alarms''"
    by (simp add: alarm_msg_def)
  have l: "ref_loads (msg_payload alarm_msg) = Some (JObj [(''violations'', JStr ''temperature'')])"
    by (simp add: alarm_msg_def alarm_def ref_codec_defs)
  have c: "cloud_connected online_service" "cloud_out online_service = []"
    "batch_buffer online_service = []"
    "cloud_publish (script_env []) 0 = Rc MQTT_ERR_SUCCESS"
    "\<not> REALTIME_MODE batched_config"
    "CLOUD_ALARMS_TOPIC batched_config = ''agrisense/alarms''"
    by (simp_all add: example_defs batched_config_def alarm_def alarm_msg_def)
  have m: "add_edge_metadata batched_config ''2024-05-01T12:00:00'' [(''violations'', JStr ''temperature'')]
      = [(''violations'', JStr ''temperature''), (''edge_id'', JStr ''edge-rpi-001''),
         (''edge_name'', JStr ''AgriSense Gateway''), (''edge_location'', JStr ''Greenhouse-A''),
         (''received_at'', JStr ''2024-05-01T12:00:00'')]"
    by (simp add: add_edge_metadata_def batched_config_def Config_def)
  from alarm_bypasses_batching [OF t, of ref_loads ref_dumps batched_config
      "''2024-05-01T12:00:00''" "script_env []" online_service] t l c m
  show ?thesis
    by (simp add: alarm_def send_to_cloud_batch_buffer send_to_cloud_success del: ref_dumps.simps)
qed

text \<open>
  C10. For a message whose payload parses to an object, on the alarm topic or any other:
  the payload that is sent, queued or buffered carries the configured \<^verbatim>\<open>edge_id\<close>,
  \<^verbatim>\<open>edge_name\<close> and \<^verbatim>\<open>edge_location\<close> and the clock reading as
  \<^verbatim>\<open>received_at\<close>, whatever the incoming payload had under these names; every other
  field keeps its value, and the other fields keep their order. The tagged payload is what
  goes to \<^verbatim>\<open>_send_to_cloud\<close> (alarm topic, or realtime mode) or to the end of the
  batch buffer (batched mode).
\<close>

theorem handle_local_message_tags_payload:
  assumes "loads (msg_payload msg) = Some (JObj received)"
  shows "map_of (add_edge_metadata cfg received_iso received) ''edge_id'' = Some (JStr (EDGE_ID cfg))
       \<and> map_of (add_edge_metadata cfg received_iso received) ''edge_name'' = Some (JStr (EDGE_NAME cfg))
       \<and> map_of (add_edge_metadata cfg received_iso received) ''edge_location''
           = Some (JStr (EDGE_LOCATION cfg))
       \<and> map_of (add_edge_metadata cfg received_iso received) ''received_at'' = Some (JStr received_iso)
       \<and> (\<forall>k. k \<notin> metadata_keys \<longrightarrow>
             map_of (add_edge_metadata cfg received_iso received) k = map_of received k)
       \<and> filter (\<lambda>kv. fst kv \<notin> metadata_keys) (add_edge_metadata cfg received_iso received)
           = filter (\<lambda>kv. fst kv \<notin> metadata_keys) received
       \<and> handle_local_message loads dumps cfg received_iso e msg s =
           (if msg_topic msg = ''agrisense/alarms''
            then snd (send_to_cloud dumps e (CLOUD_ALARMS_TOPIC cfg)
                        (JObj (add_edge_metadata cfg received_iso received))
                        (s\<lparr> stats := (stats s)\<lparr> readings_received := readings_received (stats s) + 1 \<rparr> \<rparr>))
            else if REALTIME_MODE cfg
            then snd (send_to_cloud dumps e (CLOUD_TOPIC cfg)
                        (JObj (add_edge_metadata cfg received_iso received))
                        (s\<lparr> stats := (stats s)\<lparr> readings_received := readings_received (stats s) + 1 \<rparr> \<rparr>))
            else s\<lparr> stats := (stats s)\<lparr> readings_received := readings_received (stats s) + 1 \<rparr>,
                    batch_buffer := batch_buffer s @ [JObj (add_edge_metadata cfg received_iso received)] \<rparr>)"
proof -
  have others: "\<forall>k. k \<notin> metadata_keys \<longrightarrow>
      map_of (add_edge_metadata cfg received_iso received) k = map_of received k"
    by (simp add: add_edge_metadata_lookup metadata_keys_def)
  have run: "handle_local_message loads dumps cfg received_iso e msg s =
           (if msg_topic msg = ''agrisense/alarms''
            then snd (send_to_cloud dumps e (CLOUD_ALARMS_TOPIC cfg)
                        (JObj (add_edge_metadata cfg received_iso received))
                        (s\<lparr> stats := (stats s)\<lparr> readings_received := readings_received (stats s) + 1 \<rparr> \<rparr>))
            else if REALTIME_MODE cfg
            then snd (send_to_cloud dumps e (CLOUD_TOPIC cfg)
                        (JObj (add_edge_metadata cfg received_iso received))
                        (s\<lparr> stats := (stats s)\<lparr> readings_received := readings_received (stats s) + 1 \<rparr> \<rparr>))
            else s\<lparr> stats := (stats s)\<lparr> readings_received := readings_received (stats s) + 1 \<rparr>,
                    batch_buffer := batch_buffer s @ [JObj (add_edge_metadata cfg received_iso received)] \<rparr>)"
    using assms by (simp add: handle_local_message_object Let_def)
  show ?thesis
    using others run add_edge_metadata_others [of cfg received_iso received]
    by (simp add: add_edge_metadata_lookup)
qed

theorem handle_local_message_tags_payload_witness:
  "ref_loads (msg_payload (data_msg tagged_reading))
     = Some (JObj [(''edge_id'', JStr ''other''), (''temperature'', JInt 21)])
   \<and> batch_buffer (handle_local_message ref_loads ref_dumps batched_config ''2024-05-01T12:00:00''
        (script_env []) (data_msg tagged_reading) online_service)
     = [JObj [(''edge_id'', JStr ''edge-rpi-001''), (''temperature'', JInt 21),
              (''edge_name'', JStr ''AgriSense Gateway''), (''edge_location'', JStr ''Greenhouse-A''),
              (''received_at'', JStr ''2024-05-01T12:00:00'')]]"
proof -
  have l: "ref_loads (msg_payload (data_msg tagged_reading))
      = Some (JObj [(''edge_id'', JStr ''other''), (''temperature'', JInt 21)])"
    by (simp add: data_msg_def tagged_reading_def ref_codec_defs)
  have c: "batch_buffer online_service = []" "\<not> REALTIME_MODE batched_config"
    "msg_topic (data_msg tagged_reading) \<noteq> ''agrisense/alarms''"
    by (simp_all add: example_defs batched_config_def data_msg_def tagged_reading_def)
  have m: "add_edge_metadata batched_config ''2024-05-01T12:00:00''
        [(''edge_id'', JStr ''other''), (''temperature'', JInt 21)]
      = [(''edge_id'', JStr ''edge-rpi-001''), (''temperature'', JInt 21),
         (''edge_name'', JStr ''AgriSense Gateway''), (''edge_location'', JStr ''Greenhouse-A''),
         (''received_at'', JStr ''2024-05-01T12:00:00'')]"
    by (simp add: add_edge_metadata_def batched_config_def Config_def)
  from handle_local_message_tags_payload [of ref_loads "data_msg tagged_reading"
      "[(''edge_id'', JStr ''other''), (''temperature'', JInt 21)]" batched_config
      "''2024-05-01T12:00:00''" ref_dumps "script_env []" online_service, OF l] l c m
  show ?thesis by simp
qed

subsection \<open>Commands from the cloud\<close>

text \<open>
  C9, as the claim has it, fails: the handler forwards only while the local link is
  connected. With the cloud link up and the local link down a well-formed command is
  received and nothing is published on the local broker.
\<close>

theorem handle_cloud_message_local_down_counterexample:
  "ref_loads (msg_payload command_msg) = Some command
   \<and> \<not> local_connected cloud_only_service
   \<and> local_out (handle_cloud_message ref_loads ref_dumps command_msg cloud_only_service) = []"
  by (simp add: handle_cloud_message_def example_defs command_def command_msg_def cloud_only_service_def ref_codec_defs)

text \<open>
  C9, amended. A command whose payload parses is forwarded when the local link is
  connected: one publish call on \<^verbatim>\<open>agrisense/commands\<close> whose text is the parsed
  payload written out again, which reads back as the same value as the text received
  whenever the codec reads its own output for that value. When the local link is down, or
  the payload does not parse, nothing is forwarded and the state is unchanged.
\<close>

theorem handle_cloud_message_forwards_when_local_connected:
  "(local_connected s \<and> loads (msg_payload msg) = Some payload \<longrightarrow>
      handle_cloud_message loads dumps msg s =
        s\<lparr> local_out := local_out s @ [(''agrisense/commands'', dumps payload)] \<rparr>
      \<and> (loads (dumps payload) = Some payload \<longrightarrow>
           loads (snd (last (local_out (handle_cloud_message loads dumps msg s))))
             = loads (msg_payload msg)))
   \<and> (\<not> local_connected s \<or> loads (msg_payload msg) = None \<longrightarrow>
        handle_cloud_message loads dumps msg s = s)"
  by (auto simp add: handle_cloud_message_def split: option.splits)

theorem handle_cloud_message_forwards_when_local_connected_witness:
  "local_connected online_service
   \<and> ref_loads (msg_payload command_msg) = Some command
   \<and> ref_loads (ref_dumps command) = Some command
   \<and> local_out (handle_cloud_message ref_loads ref_dumps command_msg online_service)
       = [(''agrisense/commands'', ref_dumps command)]
   \<and> \<not> local_connected cloud_only_service
   \<and> handle_cloud_message ref_loads ref_dumps command_msg cloud_only_service = cloud_only_service
   \<and> ref_loads (msg_payload broken_msg) = None
   \<and> handle_cloud_message ref_loads ref_dumps broken_msg online_service = online_service"
proof -
  have c: "local_connected online_service" "local_out online_service = []"
    "\<not> local_connected cloud_only_service"
    by (simp_all add: example_defs broken_msg_def command_def command_msg_def cloud_only_service_def)
  have l: "ref_loads (msg_payload command_msg) = Some command"
    "ref_loads (ref_dumps command) = Some command"
    by (simp_all add: command_msg_def command_def ref_codec_defs)
  have n: "ref_loads (msg_payload broken_msg) = None"
    by (simp add: broken_msg_def ref_codec_defs)
  from handle_cloud_message_forwards_when_local_connected
         [of online_service ref_loads command_msg command ref_dumps]
       handle_cloud_message_forwards_when_local_connected
         [of cloud_only_service ref_loads command_msg command ref_dumps]
       handle_cloud_message_forwards_when_local_connected
         [of online_service ref_loads broken_msg command ref_dumps]
       c l n
  show ?thesis by (simp del: ref_dumps.simps)
qed

subsection \<open>The batch sender\<close>

lemma should_send_iff:
  "should_send cfg now s \<longleftrightarrow>
     int (length (batch_buffer s)) \<ge> BATCH_SIZE cfg
     \<or> (batch_buffer s \<noteq> [] \<and> now - last_batch_time s \<ge> real_of_int (BATCH_TIMEOUT cfg))"
  by (simp add: should_send_def)

lemma send_to_cloud_frame:
  "running (snd (send_to_cloud dumps e topic payload s)) = running s"
  "last_batch_time (snd (send_to_cloud dumps e topic payload s)) = last_batch_time s"
  "local_out (snd (send_to_cloud dumps e topic payload s)) = local_out s"
  "cloud_connected (snd (send_to_cloud dumps e topic payload s)) = cloud_connected s"
  by (simp_all add: send_to_cloud_def queue_for_later_def Let_def split: publish_outcome.splits)

lemma batch_sender_round_eq:
  "batch_sender_round dumps cfg now flush_time batch_iso e s =
     (if flush_due cfg now s
      then snd (send_to_cloud dumps e (CLOUD_TOPIC cfg) (batch_payload cfg batch_iso (batch_buffer s))
                  (s\<lparr> batch_buffer := [], last_batch_time := flush_time \<rparr>))
      else s)"
  by (auto simp add: batch_sender_round_def send_batch_def should_send_def flush_due_def Let_def)

lemma batch_sender_round_empty:
  "batch_buffer s = [] \<Longrightarrow> batch_sender_round dumps cfg now flush_time batch_iso e s = s"
  by (simp add: batch_sender_round_eq flush_due_def)

lemma batch_sender_loop_empty:
  "batch_buffer s = [] \<Longrightarrow> batch_sender_loop dumps cfg ts s = s"
  by (induction ts) (simp_all add: batch_sender_round_empty)

lemma batch_sender_loop_quiet:
  "\<forall>t \<in> set ts. \<not> flush_due cfg (tick_now t) s \<Longrightarrow> batch_sender_loop dumps cfg ts s = s"
  by (induction ts) (simp_all add: batch_sender_round_eq)

lemma batch_sender_loop_append:
  "batch_sender_loop dumps cfg (ts @ us) s =
     (let s' = batch_sender_loop dumps cfg ts s in
      if running s then batch_sender_loop dumps cfg us s' else s)"
proof (induction ts arbitrary: s)
  case Nil
  show ?case by (cases us) simp_all
next
  case (Cons t ts)
  show ?case
    by (simp add: Cons.IH Let_def batch_sender_round_eq send_to_cloud_frame)
qed

lemma batch_sender_loop_one_flush:
  assumes "running s"
    and "\<forall>t \<in> set quiet. \<not> flush_due cfg (tick_now t) s"
    and "flush_due cfg (tick_now t) s"
  shows "batch_sender_loop dumps cfg (quiet @ t # later) s =
           snd (send_to_cloud dumps (tick_env t) (CLOUD_TOPIC cfg)
                  (batch_payload cfg (tick_iso t) (batch_buffer s))
                  (s\<lparr> batch_buffer := [], last_batch_time := tick_flush t \<rparr>))"
  using assms
  by (simp add: batch_sender_loop_append batch_sender_loop_quiet Let_def batch_sender_round_eq
      batch_sender_loop_empty send_to_cloud_frame send_to_cloud_batch_buffer)

lemma handle_local_message_buffers:
  assumes "\<not> REALTIME_MODE cfg" and "msg_topic msg \<noteq> ''agrisense/alarms''"
    and "loads (msg_payload msg) = Some (JObj received)"
  shows "handle_local_message loads dumps cfg received_iso e msg s =
     s\<lparr> stats := (stats s)\<lparr> readings_received := readings_received (stats s) + 1 \<rparr>,
        batch_buffer := batch_buffer s @ [JObj (add_edge_metadata cfg received_iso received)] \<rparr>"
  using assms by (simp add: handle_local_message_object Let_def)

lemma local_on_messages_buffers:
  assumes "\<not> REALTIME_MODE cfg"
    and "\<forall>a \<in> set as. msg_topic (arr_msg a) \<noteq> ''agrisense/alarms''
           \<and> (\<exists>d. loads (msg_payload (arr_msg a)) = Some (JObj d))"
  shows "batch_buffer (local_on_messages loads dumps cfg as s)
           = batch_buffer s @ map (tagged_payload loads cfg) as
       \<and> last_batch_time (local_on_messages loads dumps cfg as s) = last_batch_time s
       \<and> running (local_on_messages loads dumps cfg as s) = running s
       \<and> cloud_out (local_on_messages loads dumps cfg as s) = cloud_out s
       \<and> cloud_connected (local_on_messages loads dumps cfg as s) = cloud_connected s
       \<and> offline_queue (local_on_messages loads dumps cfg as s) = offline_queue s"
  using assms(2)
proof (induction as arbitrary: s)
  case Nil
  show ?case by simp
next
  case (Cons a as)
  from Cons.prems obtain d where d: "loads (msg_payload (arr_msg a)) = Some (JObj d)"
    and t: "msg_topic (arr_msg a) \<noteq> ''agrisense/alarms''" by auto
  have rest: "\<forall>a \<in> set as. msg_topic (arr_msg a) \<noteq> ''agrisense/alarms''
           \<and> (\<exists>d. loads (msg_payload (arr_msg a)) = Some (JObj d))"
    using Cons.prems by simp
  show ?case
    using Cons.IH [OF rest] d assms(1) t
    by (simp add: handle_local_message_buffers tagged_payload_def)
qed

lemma batch_payload_fields:
  "\<exists>fields. batch_payload cfg batch_iso batch = JObj fields
      \<and> map_of fields ''readings'' = Some (JArr batch)
      \<and> map_of fields ''batch_size'' = Some (JInt (int (length batch)))"
  by (simp add: batch_payload_def)

lemma flush_due_claim:
  "1 \<le> BATCH_SIZE cfg \<Longrightarrow>
     flush_due cfg now s \<longleftrightarrow>
       int (length (batch_buffer s)) \<ge> BATCH_SIZE cfg
       \<or> (batch_buffer s \<noteq> [] \<and> now - last_batch_time s \<ge> real_of_int (BATCH_TIMEOUT cfg))"
  by (auto simp add: flush_due_def)

text \<open>
  C5, as the claim has it, fails for a size threshold below one: with
  \<^verbatim>\<open>--batch-size 0\<close> and an empty buffer the length has reached the threshold, the
  test of the loop says send, and \<^verbatim>\<open>_send_batch\<close> returns at its guard for the empty
  buffer, so the round flushes nothing.
\<close>

theorem batch_sender_round_empty_buffer_counterexample:
  "int (length (batch_buffer online_service)) \<ge> BATCH_SIZE zero_size_config
   \<and> should_send zero_size_config 1 online_service
   \<and> batch_sender_round ref_dumps zero_size_config 1 1 ''2024-05-01T12:00:01'' (script_env [])
        online_service = online_service"
  by (simp add: batch_sender_round_def send_batch_def should_send_def example_defs zero_size_config_def batched_config_def)

text \<open>
  C5, amended. One round of the batch sender (there is one per sleep of a second)
  flushes exactly when the buffer is not empty and either its length has reached the
  size threshold or the timeout has passed since the time stored at the last flush; for a
  threshold of one or more this is the condition of the claim. A flush empties the buffer,
  stores the time, and makes one call of \<^verbatim>\<open>_send_to_cloud\<close> on the cloud topic with
  one batch record whose \<^verbatim>\<open>readings\<close> are the buffered payloads in order and whose
  \<^verbatim>\<open>batch_size\<close> is their number. Readings that arrive in batched mode are appended
  in order of arrival. Over a run of rounds the first one that is due flushes the whole
  buffer, and no round before or after it (with no new arrival) sends anything.
\<close>

theorem batch_sender_flushes_when_due:
  "batch_sender_round dumps cfg now flush_time batch_iso e s =
     (if flush_due cfg now s
      then snd (send_to_cloud dumps e (CLOUD_TOPIC cfg) (batch_payload cfg batch_iso (batch_buffer s))
                  (s\<lparr> batch_buffer := [], last_batch_time := flush_time \<rparr>))
      else s)
   \<and> (flush_due cfg now s \<longrightarrow>
        batch_buffer (batch_sender_round dumps cfg now flush_time batch_iso e s) = []
        \<and> last_batch_time (batch_sender_round dumps cfg now flush_time batch_iso e s) = flush_time)
   \<and> (\<exists>fields. batch_payload cfg batch_iso (batch_buffer s) = JObj fields
         \<and> map_of fields ''readings'' = Some (JArr (batch_buffer s))
         \<and> map_of fields ''batch_size'' = Some (JInt (int (length (batch_buffer s)))))
   \<and> (1 \<le> BATCH_SIZE cfg \<longrightarrow>
        (flush_due cfg now s \<longleftrightarrow>
           int (length (batch_buffer s)) \<ge> BATCH_SIZE cfg
           \<or> (batch_buffer s \<noteq> [] \<and> now - last_batch_time s \<ge> real_of_int (BATCH_TIMEOUT cfg))))
   \<and> (\<not> REALTIME_MODE cfg
        \<and> (\<forall>a \<in> set as. msg_topic (arr_msg a) \<noteq> ''agrisense/alarms''
              \<and> (\<exists>d. loads (msg_payload (arr_msg a)) = Some (JObj d))) \<longrightarrow>
        batch_buffer (local_on_messages loads dumps cfg as s)
          = batch_buffer s @ map (tagged_payload loads cfg) as)
   \<and> (running s \<and> (\<forall>t \<in> set quiet. \<not> flush_due cfg (tick_now t) s)
        \<and> flush_due cfg (tick_now t) s \<longrightarrow>
        batch_sender_loop dumps cfg (quiet @ t # later) s =
          snd (send_to_cloud dumps (tick_env t) (CLOUD_TOPIC cfg)
                 (batch_payload cfg (tick_iso t) (batch_buffer s))
                 (s\<lparr> batch_buffer := [], last_batch_time := tick_flush t \<rparr>)))"
proof (intro conjI)
  show "batch_sender_round dumps cfg now flush_time batch_iso e s =
     (if flush_due cfg now s
      then snd (send_to_cloud dumps e (CLOUD_TOPIC cfg) (batch_payload cfg batch_iso (batch_buffer s))
                  (s\<lparr> batch_buffer := [], last_batch_time := flush_time \<rparr>))
      else s)"
    by (rule batch_sender_round_eq)
next
  show "flush_due cfg now s \<longrightarrow>
        batch_buffer (batch_sender_round dumps cfg now flush_time batch_iso e s) = []
        \<and> last_batch_time (batch_sender_round dumps cfg now flush_time batch_iso e s) = flush_time"
    by (simp add: batch_sender_round_eq send_to_cloud_batch_buffer send_to_cloud_frame)
next
  show "\<exists>fields. batch_payload cfg batch_iso (batch_buffer s) = JObj fields
         \<and> map_of fields ''readings'' = Some (JArr (batch_buffer s))
         \<and> map_of fields ''batch_size'' = Some (JInt (int (length (batch_buffer s))))"
    by (rule batch_payload_fields)
next
  show "1 \<le> BATCH_SIZE cfg \<longrightarrow>
        (flush_due cfg now s \<longleftrightarrow>
           int (length (batch_buffer s)) \<ge> BATCH_SIZE cfg
           \<or> (batch_buffer s \<noteq> [] \<and> now - last_batch_time s \<ge> real_of_int (BATCH_TIMEOUT cfg)))"
    using flush_due_claim [of cfg now s] by blast
next
  show "\<not> REALTIME_MODE cfg
        \<and> (\<forall>a \<in> set as. msg_topic (arr_msg a) \<noteq> ''agrisense/alarms''
              \<and> (\<exists>d. loads (msg_payload (arr_msg a)) = Some (JObj d))) \<longrightarrow>
        batch_buffer (local_on_messages loads dumps cfg as s)
          = batch_buffer s @ map (tagged_payload loads cfg) as"
    using local_on_messages_buffers [of cfg as loads dumps s] by blast
next
  show "running s \<and> (\<forall>t \<in> set quiet. \<not> flush_due cfg (tick_now t) s)
        \<and> flush_due cfg (tick_now t) s \<longrightarrow>
        batch_sender_loop dumps cfg (quiet @ t # later) s =
          snd (send_to_cloud dumps (tick_env t) (CLOUD_TOPIC cfg)
                 (batch_payload cfg (tick_iso t) (batch_buffer s))
                 (s\<lparr> batch_buffer := [], last_batch_time := tick_flush t \<rparr>))"
    using batch_sender_loop_one_flush [of s quiet cfg t dumps later] by blast
qed

theorem batch_sender_flushes_when_due_witness:
  "\<not> REALTIME_MODE batched_config \<and> BATCH_SIZE batched_config = 3 \<and> BATCH_TIMEOUT batched_config = 30
   \<and> cloud_out (batch_sender_loop ref_dumps batched_config [tick_at 1, tick_at 2]
        (local_on_messages ref_loads ref_dumps batched_config
           [arrive (reading_n 1), arrive (reading_n 2), arrive (reading_n 3)]
           (start_running online_service)))
       = [(''agrisense/sensors/data'',
           ref_dumps (batch_payload batched_config ''2024-05-01T12:00:00''
             (map (tagged_payload ref_loads batched_config)
                [arrive (reading_n 1), arrive (reading_n 2), arrive (reading_n 3)])))]
   \<and> cloud_out (batch_sender_loop ref_dumps batched_config
        (map (\<lambda>n. tick_at (real n)) [1..<30] @ tick_at 30 # [tick_at 31])
        (local_on_messages ref_loads ref_dumps batched_config
           [arrive (reading_n 1), arrive (reading_n 2)]
           (start_running online_service)))
       = [(''agrisense/sensors/data'',
           ref_dumps (batch_payload batched_config ''2024-05-01T12:00:00''
             (map (tagged_payload ref_loads batched_config)
                [arrive (reading_n 1), arrive (reading_n 2)])))]"
proof -
  define s0 where "s0 = start_running online_service"
  define three where "three = [arrive (reading_n 1), arrive (reading_n 2), arrive (reading_n 3)]"
  define two where "two = [arrive (reading_n 1), arrive (reading_n 2)]"
  define sA where "sA = local_on_messages ref_loads ref_dumps batched_config three s0"
  define sB where "sB = local_on_messages ref_loads ref_dumps batched_config two s0"
  define quiet where "quiet = map (\<lambda>n. tick_at (real n)) [1..<30]"
  have cfg: "\<not> REALTIME_MODE batched_config" "BATCH_SIZE batched_config = 3"
    "BATCH_TIMEOUT batched_config = 30" "CLOUD_TOPIC batched_config = ''agrisense/sensors/data''"
    by (simp_all add: example_defs batched_config_def tick_at_def start_running_def arrive_def data_msg_def reading_n_def)
  have s0: "running s0" "batch_buffer s0 = []" "last_batch_time s0 = 0" "cloud_out s0 = []"
    "cloud_connected s0"
    by (simp_all add: s0_def example_defs batched_config_def tick_at_def start_running_def arrive_def data_msg_def reading_n_def)
  have ld: "ref_loads (msg_payload (arr_msg (arrive (reading_n 1)))) = Some (reading_n 1)"
    "ref_loads (msg_payload (arr_msg (arrive (reading_n 2)))) = Some (reading_n 2)"
    "ref_loads (msg_payload (arr_msg (arrive (reading_n 3)))) = Some (reading_n 3)"
    by (simp_all add: arrive_def data_msg_def reading_n_def ref_codec_defs)
  have tp: "\<And>k. msg_topic (arr_msg (arrive (reading_n k))) \<noteq> ''agrisense/alarms''"
    by (simp add: arrive_def data_msg_def)
  have ob: "\<And>k. \<exists>d. reading_n k = JObj d"
    by (simp add: reading_n_def)
  have ok3: "\<forall>a \<in> set three. msg_topic (arr_msg a) \<noteq> ''agrisense/alarms''
              \<and> (\<exists>d. ref_loads (msg_payload (arr_msg a)) = Some (JObj d))"
    using ld tp ob by (simp add: three_def)
  have ok2: "\<forall>a \<in> set two. msg_topic (arr_msg a) \<noteq> ''agrisense/alarms''
              \<and> (\<exists>d. ref_loads (msg_payload (arr_msg a)) = Some (JObj d))"
    using ld tp ob by (simp add: two_def)
  note th = batch_sender_flushes_when_due
  have bufA: "batch_buffer sA = map (tagged_payload ref_loads batched_config) three"
    using th [of ref_dumps batched_config 0 0 "[]" "script_env []" s0 three ref_loads "[]" "tick_at 1" "[]"]
      cfg(1) ok3 s0(2) unfolding sA_def by simp
  have bufB: "batch_buffer sB = map (tagged_payload ref_loads batched_config) two"
    using th [of ref_dumps batched_config 0 0 "[]" "script_env []" s0 two ref_loads "[]" "tick_at 1" "[]"]
      cfg(1) ok2 s0(2) unfolding sB_def by simp
  have frA: "running sA" "last_batch_time sA = 0" "cloud_out sA = []" "cloud_connected sA"
    using local_on_messages_buffers [OF cfg(1) ok3, of ref_dumps s0] s0 unfolding sA_def by simp_all
  have frB: "running sB" "last_batch_time sB = 0" "cloud_out sB = []" "cloud_connected sB"
    using local_on_messages_buffers [OF cfg(1) ok2, of ref_dumps s0] s0 unfolding sB_def by simp_all
  have dueA: "flush_due batched_config (tick_now (tick_at 1)) sA"
    by (simp add: flush_due_def bufA cfg three_def)
  have quietB: "\<forall>t \<in> set quiet. \<not> flush_due batched_config (tick_now t) sB"
    by (auto simp add: flush_due_def bufB frB cfg tick_at_def two_def quiet_def)
  have dueB: "flush_due batched_config (tick_now (tick_at 30)) sB"
    by (simp add: flush_due_def bufB frB cfg tick_at_def two_def)
  have pub: "tick_env (tick_at 1) = script_env []" "tick_env (tick_at 30) = script_env []"
    "tick_iso (tick_at 1) = ''2024-05-01T12:00:00''" "tick_iso (tick_at 30) = ''2024-05-01T12:00:00''"
    "cloud_publish (script_env []) 0 = Rc MQTT_ERR_SUCCESS"
    by (simp_all add: tick_at_def script_env_def MQTT_ERR_SUCCESS_def)
  have runA: "batch_sender_loop ref_dumps batched_config ([] @ tick_at 1 # [tick_at 2]) sA =
      snd (send_to_cloud ref_dumps (tick_env (tick_at 1)) (CLOUD_TOPIC batched_config)
             (batch_payload batched_config (tick_iso (tick_at 1)) (batch_buffer sA))
             (sA\<lparr> batch_buffer := [], last_batch_time := tick_flush (tick_at 1) \<rparr>))"
    using th [of ref_dumps batched_config 0 0 "[]" "script_env []" sA "[]" ref_loads "[]" "tick_at 1" "[tick_at 2]"]
      frA(1) dueA by simp
  have runB: "batch_sender_loop ref_dumps batched_config (quiet @ tick_at 30 # [tick_at 31]) sB =
      snd (send_to_cloud ref_dumps (tick_env (tick_at 30)) (CLOUD_TOPIC batched_config)
             (batch_payload batched_config (tick_iso (tick_at 30)) (batch_buffer sB))
             (sB\<lparr> batch_buffer := [], last_batch_time := tick_flush (tick_at 30) \<rparr>))"
    using th [of ref_dumps batched_config 0 0 "[]" "script_env []" sB "[]" ref_loads quiet "tick_at 30" "[tick_at 31]"]
      frB(1) dueB quietB by blast
  have outA: "cloud_out (batch_sender_loop ref_dumps batched_config ([] @ tick_at 1 # [tick_at 2]) sA)
      = [(''agrisense/sensors/data'',
           ref_dumps (batch_payload batched_config ''2024-05-01T12:00:00''
             (map (tagged_payload ref_loads batched_config) three)))]"
    unfolding runA by (simp add: send_to_cloud_success frA pub cfg bufA del: ref_dumps.simps)
  have outB: "cloud_out (batch_sender_loop ref_dumps batched_config
        (quiet @ tick_at 30 # [tick_at 31]) sB)
      = [(''agrisense/sensors/data'',
           ref_dumps (batch_payload batched_config ''2024-05-01T12:00:00''
             (map (tagged_payload ref_loads batched_config) two)))]"
    unfolding runB by (simp add: send_to_cloud_success frB pub cfg bufB del: ref_dumps.simps)
  have "[] @ tick_at 1 # [tick_at 2] = [tick_at 1, tick_at 2]" by simp
  with outA outB cfg show ?thesis
    unfolding sA_def sB_def s0_def three_def two_def quiet_def by metis
qed

subsection \<open>The offline queue and its processor\<close>

lemmas run_defs =
  get_pending_def select_pending_def sql_limit_def mark_sent_def
  send_to_cloud_def queue_for_later_def enqueue_def queued_record_def dict_get_def Let_def

lemma load_rows_ids:
  "load_rows loads rs = Some res \<Longrightarrow> map fst res = map row_id rs"
  by (induction rs arbitrary: res) (auto split: option.splits)

lemma load_rows_total:
  "list_all (\<lambda>r. loads (row_data r) \<noteq> None) rs \<Longrightarrow>
     load_rows loads rs = Some (map (\<lambda>r. (row_id r, the (loads (row_data r)))) rs)"
  by (induction rs) auto

lemma sql_limit_length: "0 \<le> n \<Longrightarrow> length (sql_limit n xs) \<le> nat n"
  by (simp add: sql_limit_def)

lemma sql_limit_prefix: "\<exists>ys. xs = sql_limit n xs @ ys"
  by (simp add: sql_limit_def) (metis append_take_drop_id)

lemma sorted_sql_limit: "sorted (map f xs) \<Longrightarrow> sorted (map f (sql_limit n xs))"
  by (simp add: sql_limit_def take_map [symmetric] )

lemma select_pending_sorted: "sorted (map created_at (select_pending limit q))"
  by (simp add: select_pending_def sorted_sql_limit)

lemma select_pending_monotone:
  assumes "clock_monotone q"
  shows "select_pending limit q = sql_limit limit (filter (\<lambda>r. status r = ''pending'') (rows q))"
proof -
  have "sorted (map created_at (filter (\<lambda>r. status r = ''pending'') (rows q)))"
    using assms by (simp add: clock_monotone_def sorted_filter)
  then show ?thesis
    by (simp add: select_pending_def sort_key_id_if_sorted)
qed

lemma select_pending_ids_ascending:
  assumes "clock_monotone q" and "queue_ok q"
  shows "sorted_wrt (<) (map row_id (select_pending limit q))"
proof -
  have "sorted_wrt (<) (map row_id (filter (\<lambda>r. status r = ''pending'') (rows q)))"
    using assms(2) by (simp add: queue_ok_def sorted_wrt_map sorted_wrt_filter)
  then show ?thesis
    by (simp add: select_pending_monotone [OF assms(1)] sql_limit_def take_map [symmetric] )
qed

lemma drain_items_all_confirmed:
  assumes "\<forall>n. cloud_publish e n = Rc MQTT_ERR_SUCCESS"
    and "list_all (well_formed_item cfg) pending"
  shows "drain_items dumps cfg e pending sent_ids s =
           (sent_ids @ map fst pending,
            s\<lparr> cloud_out := cloud_out s @ map (publication dumps cfg) pending,
               stats := (stats s)\<lparr> readings_sent := readings_sent (stats s) + length pending \<rparr> \<rparr>)"
  using assms(2)
proof (induction pending arbitrary: sent_ids s)
  case Nil
  show ?case by simp
next
  case (Cons item rest)
  from Cons.prems obtain d topic where d: "snd item = JObj d"
    and t: "dict_get d ''topic'' (JStr (CLOUD_TOPIC cfg)) = JStr topic"
    by (auto simp add: well_formed_item_def split: json.splits)
  have rest: "list_all (well_formed_item cfg) rest" using Cons.prems by simp
  show ?case
    using assms(1) d t by (simp add: Cons.IH [OF rest] Let_def publication_def)
qed

lemma queue_ok_init: "queue_ok init_db"
  by (simp add: queue_ok_def init_db_def)

lemma queue_ok_enqueue: "queue_ok q \<Longrightarrow> queue_ok (snd (enqueue dumps now data q))"
  by (auto simp add: queue_ok_def enqueue_def Let_def sorted_wrt_append list_all_iff)

lemma queue_ok_mark_sent: "queue_ok q \<Longrightarrow> queue_ok (mark_sent ids q)"
  by (auto simp add: queue_ok_def mark_sent_def sorted_wrt_map sorted_wrt_filter list_all_iff)

lemma set_select_pending:
  "set (select_pending limit q) \<subseteq> {r \<in> set (rows q). status r = ''pending''}"
  by (auto simp add: select_pending_def sql_limit_def dest: in_set_takeD)

lemma select_pending_all:
  assumes "limit < 0 \<or> int (get_count q) \<le> limit"
  shows "set (select_pending limit q) = {r \<in> set (rows q). status r = ''pending''}"
  using assms by (auto simp add: select_pending_def sql_limit_def get_count_def)

lemma sql_limit_map: "sql_limit n (map f xs) = map f (sql_limit n xs)"
  by (simp add: sql_limit_def take_map)

lemma offline_queue_round_all_confirmed:
  assumes "cloud_connected s"
    and "get_pending loads 50 (offline_queue s) = Some pending"
    and "list_all (well_formed_item cfg) pending"
    and "\<forall>n. cloud_publish e n = Rc MQTT_ERR_SUCCESS"
  shows "\<exists>s'. offline_queue_round loads dumps cfg e s = Some s'
           \<and> cloud_out s' = cloud_out s @ map (publication dumps cfg) pending
           \<and> offline_queue s' = mark_sent (map fst pending) (offline_queue s)"
proof (cases "pending = []")
  case True
  with assms(1,2) show ?thesis
    by (simp add: offline_queue_round_def mark_sent_def)
next
  case False
  with assms(1,2) show ?thesis
    by (simp add: offline_queue_round_def drain_items_all_confirmed [OF assms(4,3)])
qed

text \<open>
  What the loop hands to \<^verbatim>\<open>mark_sent\<close>: ids of fetched items only, one for each
  increment of the sent counter; the loop itself leaves the queue alone.
\<close>

lemma drain_items_sent_ids:
  "\<exists>confirmed. fst (drain_items dumps cfg e pending sent_ids s) = sent_ids @ confirmed
      \<and> set confirmed \<subseteq> fst ` set pending
      \<and> readings_sent (stats (snd (drain_items dumps cfg e pending sent_ids s)))
          = readings_sent (stats s) + length confirmed
      \<and> offline_queue (snd (drain_items dumps cfg e pending sent_ids s)) = offline_queue s"
proof (induction pending arbitrary: sent_ids s)
  case Nil
  show ?case by simp
next
  case (Cons item rest)
  show ?case
  proof (cases "well_formed_item cfg item")
    case False
    then have "drain_items dumps cfg e (item # rest) sent_ids s = (sent_ids, s)"
      by (auto simp add: well_formed_item_def split: json.splits)
    then show ?thesis by simp
  next
    case True
    then obtain d topic where d: "snd item = JObj d"
      and t: "dict_get d ''topic'' (JStr (CLOUD_TOPIC cfg)) = JStr topic"
      by (auto simp add: well_formed_item_def split: json.splits)
    define s1 where "s1 = s\<lparr> cloud_out := cloud_out s @ [(topic, dumps (dict_get d ''payload'' (JObj d)))] \<rparr>"
    show ?thesis
    proof (cases "cloud_publish e (length (cloud_out s))")
      case Raises
      then have "drain_items dumps cfg e (item # rest) sent_ids s = (sent_ids, s1)"
        using d t by (simp add: s1_def Let_def)
      then show ?thesis by (simp add: s1_def)
    next
      case (Rc rc)
      show ?thesis
      proof (cases "rc = MQTT_ERR_SUCCESS")
        case False
        then have eq: "drain_items dumps cfg e (item # rest) sent_ids s
            = drain_items dumps cfg e rest sent_ids s1"
          using d t Rc by (simp add: s1_def Let_def)
        from Cons.IH [of sent_ids s1] show ?thesis
          unfolding eq by (auto simp add: s1_def)
      next
        case True
        define s2 where "s2 = s1\<lparr> stats := (stats s1)\<lparr> readings_sent := readings_sent (stats s1) + 1 \<rparr> \<rparr>"
        have eq: "drain_items dumps cfg e (item # rest) sent_ids s
            = drain_items dumps cfg e rest (sent_ids @ [fst item]) s2"
          using d t Rc True by (simp add: s1_def s2_def Let_def)
        from Cons.IH [of "sent_ids @ [fst item]" s2]
        obtain confirmed where c: "fst (drain_items dumps cfg e rest (sent_ids @ [fst item]) s2)
              = (sent_ids @ [fst item]) @ confirmed"
          "set confirmed \<subseteq> fst ` set rest"
          "readings_sent (stats (snd (drain_items dumps cfg e rest (sent_ids @ [fst item]) s2)))
              = readings_sent (stats s2) + length confirmed"
          "offline_queue (snd (drain_items dumps cfg e rest (sent_ids @ [fst item]) s2)) = offline_queue s2"
          by blast
        have "fst (drain_items dumps cfg e (item # rest) sent_ids s) = sent_ids @ (fst item # confirmed)"
          unfolding eq using c(1) by simp
        moreover have "set (fst item # confirmed) \<subseteq> fst ` set (item # rest)"
          using c(2) by auto
        moreover have "readings_sent (stats (snd (drain_items dumps cfg e (item # rest) sent_ids s)))
            = readings_sent (stats s) + length (fst item # confirmed)"
          unfolding eq using c(3) by (simp add: s2_def s1_def)
        moreover have "offline_queue (snd (drain_items dumps cfg e (item # rest) sent_ids s)) = offline_queue s"
          unfolding eq using c(4) by (simp add: s2_def s1_def)
        ultimately show ?thesis by blast
      qed
    qed
  qed
qed

text \<open>
  An item whose publish call did not return success is not among the ids the loop hands
  to \<^verbatim>\<open>mark_sent\<close> (ids being distinct).
\<close>

lemma drain_items_unconfirmed_head_kept:
  assumes "cloud_publish e (length (cloud_out s)) \<noteq> Rc MQTT_ERR_SUCCESS"
    and "fst item \<notin> set sent_ids" and "fst item \<notin> fst ` set rest"
  shows "fst item \<notin> set (fst (drain_items dumps cfg e (item # rest) sent_ids s))"
proof (cases "well_formed_item cfg item")
  case False
  then have "drain_items dumps cfg e (item # rest) sent_ids s = (sent_ids, s)"
    by (auto simp add: well_formed_item_def split: json.splits)
  then show ?thesis using assms(2) by simp
next
  case True
  then obtain d topic where d: "snd item = JObj d"
    and t: "dict_get d ''topic'' (JStr (CLOUD_TOPIC cfg)) = JStr topic"
    by (auto simp add: well_formed_item_def split: json.splits)
  define s1 where "s1 = s\<lparr> cloud_out := cloud_out s @ [(topic, dumps (dict_get d ''payload'' (JObj d)))] \<rparr>"
  show ?thesis
  proof (cases "cloud_publish e (length (cloud_out s))")
    case Raises
    then have "drain_items dumps cfg e (item # rest) sent_ids s = (sent_ids, s1)"
      using d t by (simp add: s1_def Let_def)
    then show ?thesis using assms(2) by simp
  next
    case (Rc rc)
    then have "rc \<noteq> MQTT_ERR_SUCCESS" using assms(1) by simp
    then have eq: "drain_items dumps cfg e (item # rest) sent_ids s
        = drain_items dumps cfg e rest sent_ids s1"
      using d t Rc by (simp add: s1_def Let_def)
    from drain_items_sent_ids [of dumps cfg e rest sent_ids s1]
    show ?thesis unfolding eq using assms(2,3) by auto
  qed
qed

text \<open>
  C1: the code stops the round only when a publish call raises. Three readings were queued
  while the cloud link was down (ids 1, 2, 3). In the round below the publish call for
  entry 2 returns the error code 4: entry 3 is published all the same (three calls are
  logged) and deleted with entry 1, and entry 2 alone stays queued, behind a later reading
  that has been delivered. When the call for entry 2 raises instead, the round stops as
  claimed: two calls, and entries 2 and 3 stay.
\<close>

theorem offline_queue_round_continues_after_error_code:
  "map row_id (rows (offline_queue backlog_service)) = [1, 2, 3]
   \<and> map_option (\<lambda>s'. (length (cloud_out s'), map row_id (rows (offline_queue s'))))
         (offline_queue_round ref_loads ref_dumps Config (script_env [Rc 0, Rc 4, Rc 0])
            backlog_service)
       = Some (3, [2])
   \<and> map_option (\<lambda>s'. (length (cloud_out s'), map row_id (rows (offline_queue s'))))
         (offline_queue_round ref_loads ref_dumps Config (script_env [Rc 0, Raises, Rc 0])
            backlog_service)
       = Some (2, [2, 3])"
  by (simp add: example_defs backlog_service_def reading_n_def run_defs offline_queue_round_def ref_codec_defs)

text \<open>
  C2, as the claim has it, fails: the query orders by \<^verbatim>\<open>created_at\<close>, not by id.
  When the clock of the store steps back between two insertions (10, then 5), the entry
  queued second is returned first.
\<close>

theorem get_pending_clock_back_counterexample:
  "map (\<lambda>r. (row_id r, created_at r)) (rows clock_back_queue) = [(1, 10), (2, 5)]
   \<and> map_option (map fst) (get_pending ref_loads 50 clock_back_queue) = Some [2, 1]"
  by (simp add: example_defs clock_back_queue_def reading_n_def run_defs ref_codec_defs)

text \<open>
  C2, amended. \<^verbatim>\<open>get_pending\<close> is a query: it returns a list and no new table.
  Whenever it returns, the entries are pending rows of the table in ascending order of
  \<^verbatim>\<open>created_at\<close>, at most \<open>limit\<close> of them for a limit that is not negative. When the
  clock of the store never stepped back between insertions, this is ascending order of id:
  the first \<open>limit\<close> pending ids. A round of the queue processor in which every publish
  call succeeds publishes the fetched entries in the order fetched and deletes them.
\<close>

theorem get_pending_created_at_order:
  "(\<forall>res. get_pending loads limit q = Some res \<longrightarrow>
       map fst res = map row_id (select_pending limit q)
     \<and> sorted (map created_at (select_pending limit q))
     \<and> set (select_pending limit q) \<subseteq> {r \<in> set (rows q). status r = ''pending''}
     \<and> (0 \<le> limit \<longrightarrow> length res \<le> nat limit)
     \<and> (clock_monotone q \<and> queue_ok q \<longrightarrow>
          sorted_wrt (<) (map fst res)
          \<and> map fst res
              = sql_limit limit (map row_id (filter (\<lambda>r. status r = ''pending'') (rows q)))))
   \<and> (cloud_connected s \<and> get_pending loads 50 (offline_queue s) = Some pending
        \<and> list_all (well_formed_item cfg) pending
        \<and> (\<forall>n. cloud_publish e n = Rc MQTT_ERR_SUCCESS) \<longrightarrow>
        (\<exists>s'. offline_queue_round loads dumps cfg e s = Some s'
           \<and> cloud_out s' = cloud_out s @ map (publication dumps cfg) pending
           \<and> offline_queue s' = mark_sent (map fst pending) (offline_queue s)))"
proof (intro conjI allI impI)
  fix res assume r: "get_pending loads limit q = Some res"
  then show ids: "map fst res = map row_id (select_pending limit q)"
    by (simp add: get_pending_def load_rows_ids)
  show "sorted (map created_at (select_pending limit q))"
    by (rule select_pending_sorted)
  show "set (select_pending limit q) \<subseteq> {r \<in> set (rows q). status r = ''pending''}"
    by (rule set_select_pending)
  { assume "0 \<le> limit"
    then have "length (select_pending limit q) \<le> nat limit"
      by (simp add: select_pending_def sql_limit_length)
    moreover have "length res = length (select_pending limit q)"
      using ids by (metis length_map)
    ultimately show "length res \<le> nat limit" by simp }
  { assume a: "clock_monotone q \<and> queue_ok q"
    then show "sorted_wrt (<) (map fst res)"
      using ids select_pending_ids_ascending [of q limit] by simp
    from a show "map fst res
        = sql_limit limit (map row_id (filter (\<lambda>r. status r = ''pending'') (rows q)))"
      using ids by (simp add: select_pending_monotone sql_limit_map) }
next
  assume "cloud_connected s \<and> get_pending loads 50 (offline_queue s) = Some pending
        \<and> list_all (well_formed_item cfg) pending
        \<and> (\<forall>n. cloud_publish e n = Rc MQTT_ERR_SUCCESS)"
  then show "\<exists>s'. offline_queue_round loads dumps cfg e s = Some s'
           \<and> cloud_out s' = cloud_out s @ map (publication dumps cfg) pending
           \<and> offline_queue s' = mark_sent (map fst pending) (offline_queue s)"
    using offline_queue_round_all_confirmed [of s loads pending cfg e dumps] by blast
qed

theorem get_pending_created_at_order_witness:
  "clock_monotone (offline_queue backlog_service) \<and> queue_ok (offline_queue backlog_service)
   \<and> cloud_connected backlog_service
   \<and> map_option (map fst) (get_pending ref_loads 50 (offline_queue backlog_service))
       = Some [1, 2, 3]
   \<and> (\<exists>s'. offline_queue_round ref_loads ref_dumps Config (script_env []) backlog_service = Some s'
          \<and> cloud_out s' = [(''agrisense/sensors/data'', ref_dumps (reading_n 1)),
                             (''agrisense/sensors/data'', ref_dumps (reading_n 2)),
                             (''agrisense/sensors/data'', ref_dumps (reading_n 3))]
          \<and> rows (offline_queue s') = [])"
proof -
  define pending where "pending =
    [(1::nat, queued_record ''agrisense/sensors/data'' (reading_n 1)),
     (2, queued_record ''agrisense/sensors/data'' (reading_n 2)),
     (3, queued_record ''agrisense/sensors/data'' (reading_n 3))]"
  have q: "clock_monotone (offline_queue backlog_service)" "queue_ok (offline_queue backlog_service)"
    "cloud_connected backlog_service" "cloud_out backlog_service = []"
    by (simp_all add: clock_monotone_def queue_ok_def example_defs reading_n_def backlog_service_def run_defs offline_queue_round_def)
  have g: "get_pending ref_loads 50 (offline_queue backlog_service) = Some pending"
    by (simp add: pending_def example_defs reading_n_def backlog_service_def run_defs offline_queue_round_def ref_codec_defs)
  have w: "list_all (well_formed_item Config) pending"
    by (simp add: pending_def well_formed_item_def queued_record_def dict_get_def)
  have p: "\<forall>n. cloud_publish (script_env []) n = Rc MQTT_ERR_SUCCESS"
    by (simp add: script_env_def MQTT_ERR_SUCCESS_def)
  have m: "map (publication ref_dumps Config) pending =
      [(''agrisense/sensors/data'', ref_dumps (reading_n 1)),
       (''agrisense/sensors/data'', ref_dumps (reading_n 2)),
       (''agrisense/sensors/data'', ref_dumps (reading_n 3))]"
    by (simp add: pending_def publication_def queued_record_def dict_get_def del: ref_dumps.simps)
  have d: "rows (mark_sent (map fst pending) (offline_queue backlog_service)) = []"
    by (simp add: pending_def example_defs reading_n_def backlog_service_def run_defs offline_queue_round_def)
  from get_pending_created_at_order
         [of ref_loads 50 "offline_queue backlog_service" backlog_service pending Config
             "script_env []" ref_dumps] q g w p
  obtain s' where "offline_queue_round ref_loads ref_dumps Config (script_env []) backlog_service = Some s'"
    and "cloud_out s' = cloud_out backlog_service @ map (publication ref_dumps Config) pending"
    and "offline_queue s' = mark_sent (map fst pending) (offline_queue backlog_service)"
    by blast
  then have "\<exists>s'. offline_queue_round ref_loads ref_dumps Config (script_env []) backlog_service = Some s'
          \<and> cloud_out s' = [(''agrisense/sensors/data'', ref_dumps (reading_n 1)),
                             (''agrisense/sensors/data'', ref_dumps (reading_n 2)),
                             (''agrisense/sensors/data'', ref_dumps (reading_n 3))]
          \<and> rows (offline_queue s') = []"
    using q(4) m d by simp
  moreover have "map_option (map fst) (get_pending ref_loads 50 (offline_queue backlog_service))
       = Some [1, 2, 3]"
    by (simp add: g pending_def)
  ultimately show ?thesis using q by blast
qed

text \<open>
  C8. A record that the codec reads back from its own text (\<open>loads (dumps data) = Some data\<close>:
  the record is JSON-representable) is stored by \<^verbatim>\<open>enqueue\<close> under a fresh id, and
  \<^verbatim>\<open>get_pending\<close> on the table that results returns, under that id, a payload equal to
  the record, and no other payload under that id. The entry is among those returned
  whenever the limit leaves room for every pending row. The table is one that
  \<^verbatim>\<open>enqueue\<close> and \<^verbatim>\<open>mark_sent\<close> can have built, with rows that parse.
\<close>

theorem enqueue_then_get_pending_round_trip:
  assumes "loads (dumps data) = Some data"
    and "queue_ok q"
    and "list_all (\<lambda>r. loads (row_data r) \<noteq> None) (rows q)"
  shows "\<exists>res. get_pending loads limit (snd (enqueue dumps now data q)) = Some res
         \<and> (\<forall>entry \<in> set res. fst entry = fst (enqueue dumps now data q) \<longrightarrow> snd entry = data)
         \<and> (limit < 0 \<or> int (get_count q) < limit \<longrightarrow>
              (fst (enqueue dumps now data q), data) \<in> set res)"
proof -
  define new where "new = \<lparr> row_id = seq q + 1, row_data = dumps data, created_at = now,
                            status = ''pending'' \<rparr>"
  define q' where "q' = snd (enqueue dumps now data q)"
  have rows': "rows q' = rows q @ [new]" and qid: "fst (enqueue dumps now data q) = seq q + 1"
    by (simp_all add: q'_def new_def enqueue_def Let_def)
  have parse: "list_all (\<lambda>r. loads (row_data r) \<noteq> None) (rows q')"
    using assms(1,3) by (simp add: rows' new_def)
  have sub: "set (select_pending limit q') \<subseteq> set (rows q')"
    using set_select_pending [of limit q'] by auto
  then have "list_all (\<lambda>r. loads (row_data r) \<noteq> None) (select_pending limit q')"
    using parse by (auto simp add: list_all_iff)
  then have res: "get_pending loads limit q' =
      Some (map (\<lambda>r. (row_id r, the (loads (row_data r)))) (select_pending limit q'))"
    by (simp add: get_pending_def load_rows_total)
  have old: "\<And>r. r \<in> set (rows q) \<Longrightarrow> row_id r \<noteq> seq q + 1"
    using assms(2) by (auto simp add: queue_ok_def list_all_iff)
  have uniq: "\<And>r. r \<in> set (select_pending limit q') \<Longrightarrow> row_id r = seq q + 1 \<Longrightarrow> r = new"
    using sub old by (auto simp add: rows')
  have rt: "the (loads (row_data new)) = data"
    using assms(1) by (simp add: new_def)
  have one: "\<forall>entry \<in> set (map (\<lambda>r. (row_id r, the (loads (row_data r)))) (select_pending limit q')).
      fst entry = seq q + 1 \<longrightarrow> snd entry = data"
    using uniq rt by auto
  have cnt: "get_count q' = get_count q + 1"
    by (simp add: get_count_def rows' new_def)
  have mem: "limit < 0 \<or> int (get_count q) < limit \<Longrightarrow> new \<in> set (select_pending limit q')"
  proof -
    assume "limit < 0 \<or> int (get_count q) < limit"
    then have "limit < 0 \<or> int (get_count q') \<le> limit" using cnt by auto
    from select_pending_all [OF this] show ?thesis by (simp add: rows' new_def)
  qed
  have two: "limit < 0 \<or> int (get_count q) < limit \<longrightarrow>
      (seq q + 1, data) \<in> set (map (\<lambda>r. (row_id r, the (loads (row_data r)))) (select_pending limit q'))"
  proof
    assume "limit < 0 \<or> int (get_count q) < limit"
    from mem [OF this] have "(row_id new, the (loads (row_data new)))
        \<in> set (map (\<lambda>r. (row_id r, the (loads (row_data r)))) (select_pending limit q'))"
      by (simp add: image_iff) blast
    then show "(seq q + 1, data) \<in> set (map (\<lambda>r. (row_id r, the (loads (row_data r)))) (select_pending limit q'))"
      using rt by (simp add: new_def)
  qed
  show ?thesis
    using res one two unfolding q'_def [symmetric] qid by blast
qed

theorem enqueue_then_get_pending_round_trip_witness:
  "ref_loads (ref_dumps (queued_record ''agrisense/alarms'' alarm))
     = Some (queued_record ''agrisense/alarms'' alarm)
   \<and> queue_ok (offline_queue backlog_service)
   \<and> list_all (\<lambda>r. ref_loads (row_data r) \<noteq> None) (rows (offline_queue backlog_service))
   \<and> fst (enqueue ref_dumps 200 (queued_record ''agrisense/alarms'' alarm)
             (offline_queue backlog_service)) = 4
   \<and> (\<exists>res. get_pending ref_loads 50
               (snd (enqueue ref_dumps 200 (queued_record ''agrisense/alarms'' alarm)
                       (offline_queue backlog_service))) = Some res
          \<and> (4, queued_record ''agrisense/alarms'' alarm) \<in> set res)"
proof -
  have r: "ref_loads (ref_dumps (queued_record ''agrisense/alarms'' alarm))
      = Some (queued_record ''agrisense/alarms'' alarm)"
    by (simp add: queued_record_def alarm_def ref_codec_defs)
  have q: "queue_ok (offline_queue backlog_service)"
    by (simp add: queue_ok_def example_defs alarm_def backlog_service_def reading_n_def run_defs)
  have l: "list_all (\<lambda>r. ref_loads (row_data r) \<noteq> None) (rows (offline_queue backlog_service))"
    by (simp add: example_defs alarm_def backlog_service_def reading_n_def run_defs ref_codec_defs)
  have i: "fst (enqueue ref_dumps 200 (queued_record ''agrisense/alarms'' alarm)
             (offline_queue backlog_service)) = 4"
    by (simp add: example_defs alarm_def backlog_service_def reading_n_def run_defs)
  have c: "int (get_count (offline_queue backlog_service)) < 50"
    by (simp add: get_count_def example_defs alarm_def backlog_service_def reading_n_def run_defs)
  from enqueue_then_get_pending_round_trip
         [of ref_loads ref_dumps "queued_record ''agrisense/alarms'' alarm"
             "offline_queue backlog_service" 50 200] r q l c i
  have "\<exists>res. get_pending ref_loads 50
               (snd (enqueue ref_dumps 200 (queued_record ''agrisense/alarms'' alarm)
                       (offline_queue backlog_service))) = Some res
          \<and> (4, queued_record ''agrisense/alarms'' alarm) \<in> set res"
    by auto
  with r q l i show ?thesis by blast
qed

subsection \<open>The reference codec reads back what it writes\<close>

text \<open>
  For every value without floats the reference parser returns, from the text of the
  reference printer, the value itself. So each such value meets the hypothesis of the
  round trip through the queue above, for this codec. The fuel the parser starts with is
  enough: every nested call is given at least the length of the text it has to read.
\<close>

lemma read_string_escaped:
  "read_string (concat (map escape_char s) @ CHR 0x22 # rest) = Some (s, rest)"
  by (induction s) auto

lemma read_string_quote:
  "read_string (tl (quote s) @ rest) = Some (s, rest)"
  by (simp add: quote_def read_string_escaped)

lemma digit_val_digit: "k < 10 \<Longrightarrow> digit_val (digit_chars ! k) = k"
proof -
  assume "k < 10"
  then have "k \<in> {0,1,2,3,4,5,6,7,8,9}" by auto
  then show ?thesis by (auto simp add: digit_val_def digit_chars_def)
qed

lemma digit_chars_length: "length digit_chars = 10"
  by (simp add: digit_chars_def)

lemma is_digit_digit: "k < 10 \<Longrightarrow> is_digit (digit_chars ! k)"
  unfolding is_digit_def by (rule nth_mem) (simp add: digit_chars_length)

lemma show_nat_digits: "list_all is_digit (show_nat n)"
  by (induction n rule: show_nat.induct) (subst show_nat.simps, simp add: is_digit_digit)

lemma show_nat_nonempty: "show_nat n \<noteq> []"
  by (subst show_nat.simps) simp

lemma read_nat_snoc: "read_nat (ds @ [d]) = 10 * read_nat ds + digit_val d"
  by (simp add: read_nat_def)

lemma read_nat_show_nat: "read_nat (show_nat n) = n"
proof (induction n rule: show_nat.induct)
  case (1 n)
  show ?case
  proof (cases "n < 10")
    case True
    then show ?thesis
      by (subst show_nat.simps) (simp add: read_nat_def digit_val_digit)
  next
    case False
    then have "read_nat (show_nat (n div 10)) = n div 10" using 1 by simp
    with False show ?thesis
      by (subst show_nat.simps) (simp add: read_nat_snoc digit_val_digit)
  qed
qed

lemma not_digit_chars:
  "\<not> is_digit CHR ''-''" "\<not> is_digit CHR '',''" "\<not> is_digit CHR '']''" "\<not> is_digit CHR ''}''"
  "\<not> is_digit CHR ''n''" "\<not> is_digit CHR ''t''" "\<not> is_digit CHR ''f''"
  "\<not> is_digit CHR 0x22" "\<not> is_digit CHR ''[''" "\<not> is_digit CHR ''{''" "\<not> is_digit CHR '' ''"
  by (simp_all add: is_digit_def digit_chars_def)

lemma digit_not_ws: "is_digit c \<Longrightarrow> \<not> is_ws c"
  by (auto simp add: is_digit_def digit_chars_def is_ws_def)

lemma take_digits:
  assumes "list_all is_digit ds" and "rest = [] \<or> \<not> is_digit (hd rest)"
  shows "takeWhile is_digit (ds @ rest) = ds" and "dropWhile is_digit (ds @ rest) = rest"
proof -
  have a: "\<And>x. x \<in> set ds \<Longrightarrow> is_digit x" using assms(1) by (simp add: list_all_iff)
  have t: "takeWhile is_digit rest = []" using assms(2) by (cases rest) auto
  have d: "dropWhile is_digit rest = rest" using assms(2) by (cases rest) auto
  show "takeWhile is_digit (ds @ rest) = ds" using a t by simp
  show "dropWhile is_digit (ds @ rest) = rest" using a d by simp
qed

lemma show_nat_hd: "is_digit (hd (show_nat n))"
  using show_nat_digits [of n] show_nat_nonempty [of n]
  by (cases "show_nat n") simp_all

lemma read_number_show_int:
  assumes "rest = [] \<or> \<not> is_digit (hd rest)"
  shows "read_number (show_int i @ rest) = Some (JInt i, rest)"
proof (cases "i < 0")
  case True
  then show ?thesis
    using take_digits [OF show_nat_digits assms, of "nat (- i)"] show_nat_nonempty [of "nat (- i)"]
    by (simp add: read_number_def show_int_def read_nat_show_nat)
next
  case False
  obtain c r where cr: "show_nat (nat i) = c # r"
    using show_nat_nonempty [of "nat i"] by (cases "show_nat (nat i)") auto
  then have "is_digit c" using show_nat_hd [of "nat i"] by simp
  then have c: "c \<noteq> CHR ''-''" using not_digit_chars(1) by auto
  have "read_number (c # r @ rest) = Some (JInt i, rest)"
    using take_digits [OF show_nat_digits assms, of "nat i"] False c cr read_nat_show_nat [of "nat i"]
    by (simp add: read_number_def)
  then show ?thesis using False cr by (simp add: show_int_def)
qed

lemma read_value_ws [simp]: "read_value n (CHR '' '' # cs) = read_value n cs"
  by (cases n) (simp_all add: is_ws_def)

lemma read_elems_ws [simp]: "read_elems n (CHR '' '' # cs) = read_elems n cs"
  by (cases n) simp_all

lemma read_members_ws [simp]: "read_members n (CHR '' '' # cs) = read_members n cs"
  by (cases n) (simp_all add: is_ws_def)

lemma read_value_number:
  assumes "is_digit c \<or> c = CHR ''-''"
  shows "read_value (Suc n) (c # r) = read_number (c # r)"
proof -
  have "\<not> is_ws c" using assms digit_not_ws [of c] by (auto simp add: is_ws_def)
  moreover have "c \<noteq> CHR ''n''" "c \<noteq> CHR ''t''" "c \<noteq> CHR ''f''" "c \<noteq> CHR 0x22"
    "c \<noteq> CHR ''[''" "c \<noteq> CHR ''{''"
    using assms not_digit_chars by auto
  ultimately show ?thesis by simp
qed

lemma read_value_array:
  "read_value (Suc n) (CHR ''['' # r) =
     (case dropWhile is_ws r of
        [] \<Rightarrow> None
      | d # r' \<Rightarrow>
          if d = CHR '']'' then Some (JArr [], r')
          else (case read_elems n r of None \<Rightarrow> None | Some (xs, r'') \<Rightarrow> Some (JArr xs, r'')))"
  by (simp add: is_ws_def)

lemma read_value_object:
  "read_value (Suc n) (CHR ''{'' # r) =
     (case dropWhile is_ws r of
        [] \<Rightarrow> None
      | d # r' \<Rightarrow>
          if d = CHR ''}'' then Some (JObj [], r')
          else (case read_members n r of None \<Rightarrow> None | Some (kvs, r'') \<Rightarrow> Some (JObj kvs, r'')))"
  by (simp add: is_ws_def)

lemma ref_dumps_hd:
  "\<exists>c r. ref_dumps j = c # r \<and> \<not> is_ws c \<and> c \<noteq> CHR '']'' \<and> c \<noteq> CHR ''}''"
proof (cases j)
  case (JInt i)
  show ?thesis
  proof (cases "i < 0")
    case True
    with JInt show ?thesis by (simp add: show_int_def is_ws_def)
  next
    case False
    obtain c r where cr: "show_nat (nat i) = c # r"
      using show_nat_nonempty [of "nat i"] by (cases "show_nat (nat i)") auto
    then have d: "is_digit c" using show_nat_hd [of "nat i"] by simp
    then have "\<not> is_ws c" "c \<noteq> CHR '']''" "c \<noteq> CHR ''}''"
      using digit_not_ws not_digit_chars by auto
    with JInt False cr show ?thesis by (simp add: show_int_def)
  qed
qed (simp_all add: is_ws_def quote_def)

lemma commas_hd: "\<exists>r'. commas ((c # r) # ss) = c # r'"
  by (cases ss) simp_all

lemma read_elems_commas:
  assumes "\<And>x n rest. x \<in> set xs \<Longrightarrow> length (ref_dumps x) \<le> n \<Longrightarrow>
             rest = [] \<or> \<not> is_digit (hd rest) \<Longrightarrow>
             read_value n (ref_dumps x @ rest) = Some (x, rest)"
    and "xs \<noteq> []" and "length (commas (map ref_dumps xs)) < m"
  shows "read_elems m (commas (map ref_dumps xs) @ CHR '']'' # rest) = Some (xs, rest)"
  using assms
proof (induction xs arbitrary: m)
  case Nil
  then show ?case by simp
next
  case (Cons x xs)
  from Cons.prems(3) obtain m' where m: "m = Suc m'" by (cases m) auto
  have val: "\<And>n rest. length (ref_dumps x) \<le> n \<Longrightarrow> rest = [] \<or> \<not> is_digit (hd rest) \<Longrightarrow>
      read_value n (ref_dumps x @ rest) = Some (x, rest)"
    using Cons.prems(1) by simp
  show ?case
  proof (cases xs)
    case Nil
    have "read_value m' (ref_dumps x @ CHR '']'' # rest) = Some (x, CHR '']'' # rest)"
      using Cons.prems(3) Nil m by (intro val) (simp_all add: not_digit_chars)
    then show ?thesis using Nil m by (simp add: is_ws_def)
  next
    case (Cons y ys)
    have len: "length (ref_dumps x) \<le> m'" "length (commas (map ref_dumps xs)) < m'"
      using Cons.prems(3) Cons m by simp_all
    have "read_value m' (ref_dumps x @ CHR '','' # CHR '' '' # commas (map ref_dumps xs) @ CHR '']'' # rest)
        = Some (x, CHR '','' # CHR '' '' # commas (map ref_dumps xs) @ CHR '']'' # rest)"
      using len(1) by (intro val) (simp_all add: not_digit_chars)
    moreover have "read_elems m' (commas (map ref_dumps xs) @ CHR '']'' # rest) = Some (xs, rest)"
      using Cons.prems(1) len(2) Cons by (intro Cons.IH) simp_all
    ultimately show ?thesis using Cons m by (simp add: is_ws_def)
  qed
qed

lemma read_members_step:
  assumes "read_value n (ref_dumps v @ tail) = Some (v, tail)"
  shows "read_members (Suc n) (member_text (k, v) @ tail) =
     (case dropWhile is_ws tail of
        [] \<Rightarrow> None
      | c' # r4 \<Rightarrow>
          if c' = CHR '','' then
            (case read_members n r4 of None \<Rightarrow> None | Some (kvs, r5) \<Rightarrow> Some ((k, v) # kvs, r5))
          else if c' = CHR ''}'' then Some ([(k, v)], r4)
          else None)"
proof -
  have "member_text (k, v) @ tail
      = CHR 0x22 # (concat (map escape_char k) @ CHR 0x22 # (CHR '':'' # CHR '' '' # ref_dumps v @ tail))"
    by (simp add: member_text_def quote_def)
  then show ?thesis
    using assms by (simp add: is_ws_def read_string_escaped)
qed

lemma read_members_commas:
  assumes "\<And>kv n rest. kv \<in> set kvs \<Longrightarrow> length (ref_dumps (snd kv)) \<le> n \<Longrightarrow>
             rest = [] \<or> \<not> is_digit (hd rest) \<Longrightarrow>
             read_value n (ref_dumps (snd kv) @ rest) = Some (snd kv, rest)"
    and "kvs \<noteq> []" and "length (commas (map member_text kvs)) < m"
  shows "read_members m (commas (map member_text kvs) @ CHR ''}'' # rest) = Some (kvs, rest)"
  using assms
proof (induction kvs arbitrary: m)
  case Nil
  then show ?case by simp
next
  case (Cons kv kvs)
  obtain k v where kv: "kv = (k, v)" by (cases kv)
  from Cons.prems(3) obtain m' where m: "m = Suc m'" by (cases m) auto
  have val: "\<And>n rest. length (ref_dumps v) \<le> n \<Longrightarrow> rest = [] \<or> \<not> is_digit (hd rest) \<Longrightarrow>
      read_value n (ref_dumps v @ rest) = Some (v, rest)"
    using Cons.prems(1) [of kv] kv by simp
  have lv: "length (ref_dumps v) \<le> length (member_text kv)"
    by (simp add: member_text_def kv)
  show ?case
  proof (cases kvs)
    case Nil
    have "read_value m' (ref_dumps v @ CHR ''}'' # rest) = Some (v, CHR ''}'' # rest)"
      using Cons.prems(3) Nil m lv by (intro val) (simp_all add: not_digit_chars)
    from read_members_step [OF this, of k] show ?thesis
      using Nil m kv by (simp add: is_ws_def)
  next
    case (Cons kv' kvs')
    have len: "length (ref_dumps v) \<le> m'" "length (commas (map member_text kvs)) < m'"
      using Cons.prems(3) Cons m lv by simp_all
    have "read_value m' (ref_dumps v @ CHR '','' # CHR '' '' # commas (map member_text kvs) @ CHR ''}'' # rest)
        = Some (v, CHR '','' # CHR '' '' # commas (map member_text kvs) @ CHR ''}'' # rest)"
      using len(1) by (intro val) (simp_all add: not_digit_chars)
    from read_members_step [OF this, of k]
    have "read_members (Suc m') (member_text (k, v) @ CHR '','' # CHR '' '' #
            commas (map member_text kvs) @ CHR ''}'' # rest)
        = (case read_members m' (commas (map member_text kvs) @ CHR ''}'' # rest) of
             None \<Rightarrow> None | Some (kvs, r5) \<Rightarrow> Some ((k, v) # kvs, r5))"
      by (simp add: is_ws_def)
    moreover have "read_members m' (commas (map member_text kvs) @ CHR ''}'' # rest) = Some (kvs, rest)"
      using Cons.prems(1) len(2) Cons by (intro Cons.IH) simp_all
    ultimately show ?thesis using Cons m kv by simp
  qed
qed

lemma read_value_dumps:
  assumes "float_free j" and "length (ref_dumps j) \<le> n" and "rest = [] \<or> \<not> is_digit (hd rest)"
  shows "read_value n (ref_dumps j @ rest) = Some (j, rest)"
  using assms
proof (induction j arbitrary: n rest)
  case JNull
  then obtain n' where "n = Suc n'" by (cases n) auto
  then show ?case by (simp add: is_ws_def read_word_def)
next
  case (JBool b)
  then obtain n' where "n = Suc n'" by (cases n) (auto split: if_splits)
  then show ?case by (cases b) (simp_all add: is_ws_def read_word_def)
next
  case (JInt i)
  obtain c r where cr: "show_int i = c # r" and c: "is_digit c \<or> c = CHR ''-''"
  proof (cases "i < 0")
    case True
    then show ?thesis using that by (simp add: show_int_def)
  next
    case False
    obtain c r where "show_nat (nat i) = c # r"
      using show_nat_nonempty [of "nat i"] by (cases "show_nat (nat i)") auto
    moreover from this have "is_digit c" using show_nat_hd [of "nat i"] by simp
    ultimately show ?thesis using that False by (simp add: show_int_def)
  qed
  from JInt.prems(2) cr obtain n' where n: "n = Suc n'" by (cases n) auto
  have "read_value (Suc n') (c # (r @ rest)) = read_number (c # (r @ rest))"
    using c by (rule read_value_number)
  then show ?case
    using read_number_show_int [OF JInt.prems(3), of i] cr n by simp
next
  case (JFloat f)
  then show ?case by simp
next
  case (JStr s)
  then obtain n' where "n = Suc n'" by (cases n) (auto simp add: quote_def)
  then show ?case by (simp add: quote_def is_ws_def read_string_escaped)
next
  case (JArr xs)
  from JArr.prems(2) obtain n' where n: "n = Suc n'" by (cases n) auto
  show ?case
  proof (cases xs)
    case Nil
    then show ?thesis using n by (simp add: read_value_array is_ws_def)
  next
    case (Cons x xs')
    obtain c r where c: "ref_dumps x = c # r" "\<not> is_ws c" "c \<noteq> CHR '']''"
      using ref_dumps_hd [of x] by blast
    obtain r' where r': "commas (map ref_dumps xs) = c # r'"
      using commas_hd [of c r "map ref_dumps xs'"] c(1) Cons by auto
    have ih: "\<And>x n rest. x \<in> set xs \<Longrightarrow> length (ref_dumps x) \<le> n \<Longrightarrow>
             rest = [] \<or> \<not> is_digit (hd rest) \<Longrightarrow>
             read_value n (ref_dumps x @ rest) = Some (x, rest)"
      using JArr.IH JArr.prems(1) by (simp add: list_all_iff)
    have "length (commas (map ref_dumps xs)) < n'"
      using JArr.prems(2) n by simp
    from read_elems_commas [OF ih _ this, of rest]
    have "read_elems n' (commas (map ref_dumps xs) @ CHR '']'' # rest) = Some (xs, rest)"
      using Cons by simp
    moreover have "ref_dumps (JArr xs) @ rest
        = CHR ''['' # (commas (map ref_dumps xs) @ CHR '']'' # rest)"
      by simp
    moreover have "dropWhile is_ws (commas (map ref_dumps xs) @ CHR '']'' # rest)
        = c # (r' @ CHR '']'' # rest)"
      using r' c(2) by simp
    ultimately show ?thesis
      unfolding n using c(3) by (simp only: read_value_array) simp
  qed
next
  case (JObj kvs)
  from JObj.prems(2) obtain n' where n: "n = Suc n'" by (cases n) auto
  have otext: "ref_dumps (JObj kvs) = CHR ''{'' # commas (map member_text kvs) @ ''}''"
    by (simp add: member_text_def [abs_def])
  show ?case
  proof (cases kvs)
    case Nil
    then show ?thesis using n by (simp add: read_value_object is_ws_def)
  next
    case (Cons kv kvs')
    obtain r' where r': "commas (map member_text kvs) = CHR 0x22 # r'"
      using commas_hd [of "CHR 0x22" _ "map member_text kvs'"] Cons
      by (auto simp add: member_text_def quote_def)
    have ih: "\<And>kv n rest. kv \<in> set kvs \<Longrightarrow> length (ref_dumps (snd kv)) \<le> n \<Longrightarrow>
             rest = [] \<or> \<not> is_digit (hd rest) \<Longrightarrow>
             read_value n (ref_dumps (snd kv) @ rest) = Some (snd kv, rest)"
    proof -
      fix kv n rest
      assume a: "kv \<in> set kvs" "length (ref_dumps (snd kv)) \<le> n" "rest = [] \<or> \<not> is_digit (hd rest)"
      have "snd kv \<in> Basic_BNFs.snds kv" by (cases kv) simp
      moreover have "float_free (snd kv)" using JObj.prems(1) a(1) by (simp add: list_all_iff)
      ultimately show "read_value n (ref_dumps (snd kv) @ rest) = Some (snd kv, rest)"
        using JObj.IH [OF a(1)] a(2,3) by blast
    qed
    have "length (commas (map member_text kvs)) < n'"
      using JObj.prems(2) n unfolding otext by simp
    from read_members_commas [OF ih _ this, of rest]
    have "read_members n' (commas (map member_text kvs) @ CHR ''}'' # rest) = Some (kvs, rest)"
      using Cons by simp
    moreover have "ref_dumps (JObj kvs) @ rest
        = CHR ''{'' # (commas (map member_text kvs) @ CHR ''}'' # rest)"
      unfolding otext by simp
    moreover have "dropWhile is_ws (commas (map member_text kvs) @ CHR ''}'' # rest)
        = CHR 0x22 # (r' @ CHR ''}'' # rest)"
      using r' by (simp add: is_ws_def)
    ultimately show ?thesis
      unfolding n by (simp only: read_value_object) simp
  qed
qed

lemma ref_codec_round_trip:
  "float_free j \<Longrightarrow> ref_loads (ref_dumps j) = Some j"
  using read_value_dumps [of j "Suc (length (ref_dumps j))" "[]"]
  by (simp add: ref_loads_def)

end
